theory Spec2Isabelle
  imports Main "HOL-Library.Multiset"
begin

section \<open>Run-time values and the object store\<close>

text \<open>
  The library is JavaScript: objects are shared by reference and mutated in place, every
  argument can hold a value of the wrong kind, and a failed check throws. The embedding
  keeps all three explicit. Objects live in a store and are passed around as indices
  into it; an argument is a small datatype that lists the kinds of value the code
  distinguishes with \<open>typeof\<close> and \<open>instanceof\<close>; a throw is the left injection of
  a sum.
\<close>

datatype error = Error string | TypeError string | DataCloneError

text \<open>
  A \<open>URLSearchParams\<close> object holds an ordered list of name/value pairs; a name may
  occur several times.
\<close>

type_synonym params = "(string \<times> string) list"

text \<open>
  The model is an untyped object: a finite map from property names to values. The
  type of the property values is left open.
\<close>

type_synonym 'v js_object = "string \<Rightarrow> 'v option"

record 'v heap =
  objects :: "'v js_object list"
  searchParams :: "params list"
  unhandledRejections :: "error list"
  cloneable :: "'v js_object \<Rightarrow> bool"

text \<open>
  \<open>objects\<close> and \<open>searchParams\<close> are the two kinds of allocated object, addressed by
  position; allocation appends. \<open>unhandledRejections\<close> collects the errors of promises
  that reject while nobody awaits them. \<open>cloneable\<close> is the platform's structured clone
  algorithm as far as the library depends on it: it says of an object whether the
  algorithm copies it or refuses it (an object that holds a function, for one). The
  type of the property values is open, so which objects are refused is a parameter.
\<close>

datatype model_arg = MUndefined | MNull | MPrimitive string | MObject nat

datatype params_arg = PUndefined | PNonInstance | PInstance nat

subsection \<open>The operations of \<open>URLSearchParams\<close> that the library calls\<close>

definition URLSearchParams_keys :: "params \<Rightarrow> string list" where
  "URLSearchParams_keys ps = map fst ps"

definition URLSearchParams_get :: "params \<Rightarrow> string \<Rightarrow> string option" where
  "URLSearchParams_get ps k = map_of ps k"

definition URLSearchParams_delete :: "params \<Rightarrow> string \<Rightarrow> params" where
  "URLSearchParams_delete ps k = filter (\<lambda>p. fst p \<noteq> k) ps"

text \<open>
  \<open>set\<close> overwrites the first pair of that name and removes the later ones, or appends
  a new pair when the name is absent.
\<close>

fun URLSearchParams_set :: "params \<Rightarrow> string \<Rightarrow> string \<Rightarrow> params" where
  "URLSearchParams_set [] k v = [(k, v)]"
| "URLSearchParams_set (p # ps) k v =
     (if fst p = k then (k, v) # URLSearchParams_delete ps k
      else p # URLSearchParams_set ps k v)"

text \<open>
  Allocation. \<open>new URLSearchParams(init)\<close> copies the pairs of \<open>init\<close>, \<open>{}\<close> is the
  object without properties, and \<open>structuredClone\<close> copies a model object into a new
  one, or throws a \<open>DataCloneError\<close> when the object cannot be cloned.
\<close>

definition newURLSearchParams :: "params \<Rightarrow> 'v heap \<Rightarrow> nat \<times> 'v heap" where
  "newURLSearchParams init h =
     (length (searchParams h), h\<lparr>searchParams := searchParams h @ [init]\<rparr>)"

definition newObject :: "'v heap \<Rightarrow> nat \<times> 'v heap" where
  "newObject h = (length (objects h), h\<lparr>objects := objects h @ [Map.empty]\<rparr>)"

definition structuredClone :: "nat \<Rightarrow> 'v heap \<Rightarrow> error + nat \<times> 'v heap" where
  "structuredClone r h =
     (if cloneable h (objects h ! r)
      then Inr (length (objects h), h\<lparr>objects := objects h @ [objects h ! r]\<rparr>)
      else Inl DataCloneError)"

section \<open>ParamBinder\<close>

text \<open>
  The fields are the constructor's parameters. The caller's functions are taken to be
  pure and to return: a default supplier reads the parameter set it is handed (absent
  when called without one), a validator reads the value and the parameter set, the
  setter changes the model object it is given and nothing else, and the getter returns
  the stringified property or nothing for \<open>undefined\<close> and \<open>null\<close>.
\<close>

record 'v ParamBinder =
  urlParamName :: string
  defaultParamValue :: "string + (params option \<Rightarrow> string)"
  setValueToModelFunc :: "'v js_object \<Rightarrow> string \<Rightarrow> 'v js_object"
  getUrlParamValueFunc :: "'v js_object \<Rightarrow> string option"
  isModelConsistentFunc :: "('v js_object \<Rightarrow> bool) option"
  isUrlParamValueValidFunc :: "string \<Rightarrow> params option \<Rightarrow> bool"

definition getDefaultParamValue :: "'v ParamBinder \<Rightarrow> params option \<Rightarrow> string" where
  "getDefaultParamValue this allParams =
     (case defaultParamValue this of
        Inr f \<Rightarrow> f allParams
      | Inl s \<Rightarrow> s)"

definition isUrlParamValid :: "'v ParamBinder \<Rightarrow> string \<Rightarrow> params option \<Rightarrow> bool" where
  "isUrlParamValid this str allParams = isUrlParamValueValidFunc this str allParams"

definition parseUrlParamValue :: "'v ParamBinder \<Rightarrow> string \<Rightarrow> params option \<Rightarrow> string" where
  "parseUrlParamValue this val allParams =
     (if \<not> isUrlParamValid this val allParams then getDefaultParamValue this allParams
      else val)"

definition getUrlParamValue :: "'v ParamBinder \<Rightarrow> 'v js_object \<Rightarrow> string" where
  "getUrlParamValue this obj =
     (case getUrlParamValueFunc this obj of
        None \<Rightarrow> getDefaultParamValue this None
      | Some valToReturn \<Rightarrow> valToReturn)"

definition setToModel :: "'v ParamBinder \<Rightarrow> model_arg \<Rightarrow> string \<Rightarrow> 'v heap \<Rightarrow> error + 'v heap" where
  "setToModel this mdl urlParamValue h =
     (case mdl of
        MObject r \<Rightarrow>
          Inr (h\<lparr>objects := (objects h)[r := setValueToModelFunc this (objects h ! r) urlParamValue]\<rparr>)
      | _ \<Rightarrow> Inl (Error ''model must be a non-null object''))"

definition isModelConsistent :: "'v ParamBinder \<Rightarrow> 'v js_object \<Rightarrow> bool" where
  "isModelConsistent this obj =
     (case isModelConsistentFunc this of
        Some f \<Rightarrow> f obj
      | None \<Rightarrow> True)"

section \<open>ModelBinder\<close>

record 'v ModelBinder =
  paramBinders :: "'v ParamBinder list"

record ModelParseResult =
  model :: "nat option"
  newParams :: "nat option"

datatype 'v binder_arg = NotParamBinder | ParamBinderInstance "'v ParamBinder"

text \<open>
  \<open>addParamBinder\<close> returns the receiver after the call together with what the call
  produced: the error thrown, or the value returned (\<open>this\<close>).
\<close>

definition addParamBinder ::
  "'v ModelBinder \<Rightarrow> 'v binder_arg \<Rightarrow> 'v ModelBinder \<times> (error + 'v ModelBinder)" where
  "addParamBinder this arg =
     (case arg of
        NotParamBinder \<Rightarrow> (this, Inl (Error ''paramBinder must be instance of BaseParamBinder''))
      | ParamBinderInstance paramBinder \<Rightarrow>
          if list_ex (\<lambda>pb. urlParamName pb = urlParamName paramBinder) (paramBinders this)
          then (this, Inl (Error (''paramBinder with urlParamName '' @ urlParamName paramBinder
                                   @ '' already exists'')))
          else let this' = this\<lparr>paramBinders := paramBinders this @ [paramBinder]\<rparr>
               in (this', Inr this'))"

subsection \<open>Batches of asynchronous tasks\<close>

text \<open>
  \<open>Promise.all(xs.map(async ...))\<close> starts one task per element and waits for all of
  them. The tasks run on one thread and interleave only at their \<open>await\<close>s; the order
  in which they get past an \<open>await\<close> depends on how long the caller's functions take.
  In decode every task performs its only write in one uninterrupted stretch, and what
  it reads before (the caller's parameter set) is not written by any task, so a run of
  a batch is fixed by the order in which the tasks perform that stretch. That order is
  a parameter: a list of positions in the task list.
\<close>

definition inOrder :: "nat list \<Rightarrow> 'a list \<Rightarrow> 'a list" where
  "inOrder order xs = map (\<lambda>i. xs ! i) (filter (\<lambda>i. i < length xs) order)"

definition completes :: "nat list \<Rightarrow> 'a list \<Rightarrow> bool" where
  "completes order xs = (sort order = [0..<length xs])"

text \<open>
  \<open>completes\<close> says that an order runs every task of the batch once. A batch stops
  being awaited at the first task that rejects.
\<close>

fun promiseAll :: "('s \<Rightarrow> error + 's) list \<Rightarrow> 's \<Rightarrow> error option \<times> 's" where
  "promiseAll [] s = (None, s)"
| "promiseAll (t # ts) s =
     (case t s of
        Inl e \<Rightarrow> (Some e, s)
      | Inr s' \<Rightarrow> promiseAll ts s')"

record schedule =
  absentOrder :: "nat list"
  presentOrder :: "nat list"
  resetOrder :: "nat list"

subsection \<open>getModelFromUrlParams\<close>

text \<open>
  The task of an absent key. Were \<open>find\<close> to return \<open>undefined\<close>, the method call on it
  would throw a \<open>TypeError\<close>.
\<close>

definition absentTask ::
  "'v ModelBinder \<Rightarrow> nat \<Rightarrow> model_arg \<Rightarrow> string \<Rightarrow> 'v heap \<Rightarrow> error + 'v heap" where
  "absentTask this urlParams mdl key h =
     (case find (\<lambda>pb. urlParamName pb = key) (paramBinders this) of
        None \<Rightarrow> Inl (TypeError ''paramBinder is undefined'')
      | Some paramBinder \<Rightarrow>
          let defaultParamValue =
                getDefaultParamValue paramBinder (Some (searchParams h ! urlParams))
          in setToModel paramBinder mdl defaultParamValue h)"

text \<open>
  The task of a present key. The value is read with \<open>get\<close>, which cannot miss because
  the key came from \<open>keys()\<close> of the same object. The last call, \<open>setToModel\<close>, is not
  awaited: if it rejected, the rejection would stay unhandled and the task would
  still complete.
\<close>

definition presentTask ::
  "'v ModelBinder \<Rightarrow> nat \<Rightarrow> model_arg \<Rightarrow> nat \<Rightarrow> string \<Rightarrow> 'v heap \<times> bool \<Rightarrow> 'v heap \<times> bool" where
  "presentTask this urlParams mdl newParamsRef key s =
     (case s of (h, hasErrors) \<Rightarrow>
       (case find (\<lambda>pb. urlParamName pb = key) (paramBinders this) of
          None \<Rightarrow> (h, hasErrors)
        | Some paramBinder \<Rightarrow>
            (case URLSearchParams_get (searchParams h ! urlParams) key of
               None \<Rightarrow> (h, hasErrors)
             | Some val \<Rightarrow>
                 if \<not> isUrlParamValid paramBinder val (Some (searchParams h ! urlParams))
                 then (h\<lparr>searchParams := (searchParams h)
                          [newParamsRef := URLSearchParams_delete (searchParams h ! newParamsRef) key]\<rparr>,
                       True)
                 else
                   let parsedValue =
                         parseUrlParamValue paramBinder val (Some (searchParams h ! urlParams))
                   in (case setToModel paramBinder mdl parsedValue h of
                         Inl e \<Rightarrow> (h\<lparr>unhandledRejections := unhandledRejections h @ [e]\<rparr>, hasErrors)
                       | Inr h' \<Rightarrow> (h', hasErrors)))))"

definition resetTask :: "nat \<Rightarrow> nat \<Rightarrow> 'v ParamBinder \<Rightarrow> 'v heap \<Rightarrow> 'v heap" where
  "resetTask urlParams newParamsRef pb h =
     (let defaultParamValue = getDefaultParamValue pb (Some (searchParams h ! urlParams))
      in h\<lparr>searchParams := (searchParams h)
            [newParamsRef := URLSearchParams_set (searchParams h ! newParamsRef)
                               (urlParamName pb) defaultParamValue]\<rparr>)"

definition getModelFromUrlParams ::
  "'v ModelBinder \<Rightarrow> schedule \<Rightarrow> params_arg \<Rightarrow> model_arg \<Rightarrow> 'v heap
     \<Rightarrow> (error + ModelParseResult) \<times> 'v heap" where
  "getModelFromUrlParams this sched urlParamsArg mdl h =
     (case urlParamsArg of
        PInstance urlParams \<Rightarrow>
          (case (case mdl of
                   MObject r \<Rightarrow> structuredClone r h
                 | _ \<Rightarrow> Inr (newObject h)) of
             Inl e \<Rightarrow> (Inl e, h)
           | Inr (m, h1) \<Rightarrow>
              (let (newParamsRef, h2) = newURLSearchParams (searchParams h1 ! urlParams) h1;
                   urlParamsKeys = URLSearchParams_keys (searchParams h2 ! urlParams);
                   paramBindersKeys = map urlParamName (paramBinders this);
                   absentKeys = filter (\<lambda>key. key \<notin> set urlParamsKeys) paramBindersKeys
               in case promiseAll (map (absentTask this urlParams (MObject m))
                                     (inOrder (absentOrder sched) absentKeys)) h2 of
                    (Some e, h3) \<Rightarrow> (Inl e, h3)
                  | (None, h3) \<Rightarrow>
                      (let (h4, hasErrors) =
                             fold (presentTask this urlParams (MObject m) newParamsRef)
                               (inOrder (presentOrder sched) urlParamsKeys) (h3, False)
                       in if hasErrors then (Inr \<lparr>model = None, newParams = Some newParamsRef\<rparr>, h4)
                          else
                            let consistencyCheckResults =
                                  map (\<lambda>pb. isModelConsistent pb (objects h4 ! m)) (paramBinders this)
                            in if list_ex (\<lambda>r. r = False) consistencyCheckResults
                               then (Inr \<lparr>model = None, newParams = Some newParamsRef\<rparr>,
                                     fold (resetTask urlParams newParamsRef)
                                       (inOrder (resetOrder sched) (paramBinders this)) h4)
                               else (Inr \<lparr>model = Some m, newParams = None\<rparr>, h4))))
      | _ \<Rightarrow> (Inl (Error ''urlParams must be instance of URLSearchParams''), h))"

subsection \<open>getUrlParamsFromModel\<close>

text \<open>
  An encode task reads first (the model's value, then the default against the parameter
  set as it is at that moment) and writes later, after another \<open>await\<close>; other tasks
  may write in between. A task is therefore a two-step coroutine, and a run of the
  batch is a list of resumptions: each entry names the task that takes its next step.
  No task writes the model, so reading the model's value in the same step as the
  default loses no interleaving. Resuming a settled task does nothing.
\<close>

datatype task_state = Pending | Awaiting string string | Settled

definition encodeStep ::
  "'v ModelBinder \<Rightarrow> nat \<Rightarrow> nat \<Rightarrow> nat \<Rightarrow> 'v heap \<times> task_state list \<Rightarrow> 'v heap \<times> task_state list" where
  "encodeStep this m urlParams i s =
     (case s of (h, tasks) \<Rightarrow>
        if i < length (paramBinders this) \<and> i < length tasks then
          (let pb = paramBinders this ! i in
           case tasks ! i of
             Pending \<Rightarrow>
               (let urlParamValue = getUrlParamValue pb (objects h ! m);
                    defaultParamValue = getDefaultParamValue pb (Some (searchParams h ! urlParams))
                in (h, tasks[i := Awaiting urlParamValue defaultParamValue]))
           | Awaiting urlParamValue defaultValue \<Rightarrow>
               (if urlParamValue \<noteq> defaultValue
                then h\<lparr>searchParams := (searchParams h)
                        [urlParams := URLSearchParams_set (searchParams h ! urlParams)
                                        (urlParamName pb) urlParamValue]\<rparr>
                else h,
                tasks[i := Settled])
           | Settled \<Rightarrow> (h, tasks))
        else (h, tasks))"


definition getUrlParamsFromModel ::
  "'v ModelBinder \<Rightarrow> nat list \<Rightarrow> model_arg \<Rightarrow> params_arg \<Rightarrow> 'v heap \<Rightarrow> (error + nat) \<times> 'v heap" where
  "getUrlParamsFromModel this resumptions mdl searchParamsArg h =
     (case mdl of
        MObject m \<Rightarrow>
          (let (urlParams, h1) = (case searchParamsArg of
                                    PInstance r \<Rightarrow> (r, h)
                                  | _ \<Rightarrow> newURLSearchParams [] h);
               (h2, tasks) = fold (encodeStep this m urlParams) resumptions
                               (h1, replicate (length (paramBinders this)) Pending)
           in (Inr urlParams, h2))
      | _ \<Rightarrow> (Inl (Error ''model must be a non-null object''), h))"

section \<open>What a run of decode computes\<close>

text \<open>
  The definitions of this section are not code of the library. They name the values
  that the lemmas below show \<open>getModelFromUrlParams\<close> to leave in the store, so that
  the properties can be stated in terms of the parameter set and the binders alone.
\<close>

abbreviation binderFor :: "'v ModelBinder \<Rightarrow> string \<Rightarrow> 'v ParamBinder option" where
  "binderFor this key \<equiv> find (\<lambda>pb. urlParamName pb = key) (paramBinders this)"

text \<open>A key is invalid when it has a binder and that binder rejects the key's value.\<close>

definition invalidKey :: "'v ModelBinder \<Rightarrow> params \<Rightarrow> string \<Rightarrow> bool" where
  "invalidKey this ps key =
     (case binderFor this key of
        None \<Rightarrow> False
      | Some pb \<Rightarrow>
          (case URLSearchParams_get ps key of
             None \<Rightarrow> False
           | Some v \<Rightarrow> \<not> isUrlParamValid pb v (Some ps)))"

definition assignDefault :: "'v ModelBinder \<Rightarrow> params \<Rightarrow> string \<Rightarrow> 'v js_object \<Rightarrow> 'v js_object" where
  "assignDefault this ps key obj =
     (case binderFor this key of
        None \<Rightarrow> obj
      | Some pb \<Rightarrow> setValueToModelFunc pb obj (getDefaultParamValue pb (Some ps)))"

definition assignPresent :: "'v ModelBinder \<Rightarrow> params \<Rightarrow> string \<Rightarrow> 'v js_object \<Rightarrow> 'v js_object" where
  "assignPresent this ps key obj =
     (case binderFor this key of
        None \<Rightarrow> obj
      | Some pb \<Rightarrow>
          (case URLSearchParams_get ps key of
             None \<Rightarrow> obj
           | Some v \<Rightarrow> if isUrlParamValid pb v (Some ps) then setValueToModelFunc pb obj v else obj))"

definition resetAll :: "'v ParamBinder list \<Rightarrow> params \<Rightarrow> params \<Rightarrow> params" where
  "resetAll pbs ps np =
     fold (\<lambda>pb np'. URLSearchParams_set np' (urlParamName pb) (getDefaultParamValue pb (Some ps))) pbs np"

definition clonedModel :: "model_arg \<Rightarrow> 'v heap \<Rightarrow> 'v js_object" where
  "clonedModel mdl h = (case mdl of MObject r \<Rightarrow> objects h ! r | _ \<Rightarrow> Map.empty)"

definition absentKeys :: "'v ModelBinder \<Rightarrow> params \<Rightarrow> string list" where
  "absentKeys this ps =
     filter (\<lambda>key. key \<notin> set (URLSearchParams_keys ps)) (map urlParamName (paramBinders this))"

definition decodedObject :: "'v ModelBinder \<Rightarrow> schedule \<Rightarrow> params \<Rightarrow> 'v js_object \<Rightarrow> 'v js_object" where
  "decodedObject this sched ps obj0 =
     fold (assignPresent this ps) (inOrder (presentOrder sched) (URLSearchParams_keys ps))
       (fold (assignDefault this ps) (inOrder (absentOrder sched) (absentKeys this ps)) obj0)"

definition errorFlag :: "'v ModelBinder \<Rightarrow> schedule \<Rightarrow> params \<Rightarrow> bool" where
  "errorFlag this sched ps =
     list_ex (invalidKey this ps) (inOrder (presentOrder sched) (URLSearchParams_keys ps))"

definition strippedParams :: "'v ModelBinder \<Rightarrow> schedule \<Rightarrow> params \<Rightarrow> params" where
  "strippedParams this sched ps =
     filter (\<lambda>p. \<not> (fst p \<in> set (inOrder (presentOrder sched) (URLSearchParams_keys ps)) \<and>
                     invalidKey this ps (fst p))) ps"

definition inconsistent :: "'v ModelBinder \<Rightarrow> 'v js_object \<Rightarrow> bool" where
  "inconsistent this obj = list_ex (\<lambda>pb. \<not> isModelConsistent pb obj) (paramBinders this)"

text \<open>
  Two schedules that describe the same run but for the tasks of the key \<open>key\<close>: the
  first for the parameter set \<open>ps\<close>, the second for \<open>ps\<close> without that key. The absent
  keys and the binders are run in the same order, and the present keys other than
  \<open>key\<close> are run in the same order.
\<close>

definition sameRunWithout :: "string \<Rightarrow> params \<Rightarrow> schedule \<Rightarrow> schedule \<Rightarrow> bool" where
  "sameRunWithout key ps sched sched' =
     (absentOrder sched' = absentOrder sched \<and>
      resetOrder sched' = resetOrder sched \<and>
      inOrder (presentOrder sched') (URLSearchParams_keys (URLSearchParams_delete ps key)) =
        filter (\<lambda>k. k \<noteq> key) (inOrder (presentOrder sched) (URLSearchParams_keys ps)))"

text \<open>An argument that is a reference points to an allocated object.\<close>

definition inStore :: "params_arg \<Rightarrow> 'v heap \<Rightarrow> bool" where
  "inStore arg h = (case arg of PInstance u \<Rightarrow> u < length (searchParams h) | _ \<Rightarrow> True)"

text \<open>
  A model argument that decode can start from: anything that is not an object (decode
  then takes a fresh record), or an object that the structured clone algorithm copies.
\<close>

definition canClone :: "model_arg \<Rightarrow> 'v heap \<Rightarrow> bool" where
  "canClone mdl h = (case mdl of MObject r \<Rightarrow> cloneable h (objects h ! r) | _ \<Rightarrow> True)"

section \<open>What a run of encode keeps and writes\<close>

text \<open>
  The part of the store that the steps of an encode run on the parameter set \<open>u\<close>
  keep as it is in \<open>h\<close>: every model object, every other parameter set, and the number
  of tasks.
\<close>

definition encodeFrame :: "'v heap \<Rightarrow> nat \<Rightarrow> nat \<Rightarrow> 'v heap \<times> task_state list \<Rightarrow> bool" where
  "encodeFrame h u n s =
     (objects (fst s) = objects h \<and>
      unhandledRejections (fst s) = unhandledRejections h \<and>
      length (searchParams (fst s)) = length (searchParams h) \<and>
      (\<forall>r. r \<noteq> u \<longrightarrow> searchParams (fst s) ! r = searchParams h ! r) \<and>
      length (snd s) = n)"

text \<open>The parameter set an encode call starts from: the one supplied, or an empty one.\<close>

definition suppliedParams :: "params_arg \<Rightarrow> 'v heap \<Rightarrow> params" where
  "suppliedParams arg h = (case arg of PInstance r \<Rightarrow> searchParams h ! r | _ \<Rightarrow> [])"



text \<open>
  The log of an encode run. A write is \<open>urlParams.set\<close> by the binder at index \<open>i\<close> with
  the value that binder reads from the model object \<open>obj\<close>; \<open>applyWrites\<close> makes the
  writes of a list of binder indices, in order, on the parameter set \<open>init\<close>. A log
  entry \<open>(i, l)\<close> records the writing binder and the number \<open>l\<close> of earlier writes that
  had been made when that binder's task computed its default; \<open>stateAfter\<close> is the
  parameter set after the first \<open>l\<close> writes of a log.
\<close>

definition applyWrites :: "'v ModelBinder \<Rightarrow> 'v js_object \<Rightarrow> nat list \<Rightarrow> params \<Rightarrow> params" where
  "applyWrites this obj is init =
     fold (\<lambda>i ps. URLSearchParams_set ps (urlParamName (paramBinders this ! i))
                     (getUrlParamValue (paramBinders this ! i) obj)) is init"

definition stateAfter :: "'v ModelBinder \<Rightarrow> 'v js_object \<Rightarrow> params \<Rightarrow> (nat \<times> nat) list \<Rightarrow> nat \<Rightarrow> params" where
  "stateAfter this obj init ws l = applyWrites this obj (map fst (take l ws)) init"

text \<open>
  A log is justified when no binder writes twice and every write was made because the
  binder's value differs from the default it computed against the parameter set as it
  was after some of the earlier writes.
\<close>

definition justified :: "'v ModelBinder \<Rightarrow> 'v js_object \<Rightarrow> params \<Rightarrow> (nat \<times> nat) list \<Rightarrow> bool" where
  "justified this obj init ws =
     (distinct (map fst ws) \<and>
      (\<forall>j<length ws.
         fst (ws ! j) < length (paramBinders this) \<and>
         snd (ws ! j) \<le> j \<and>
         getUrlParamValue (paramBinders this ! fst (ws ! j)) obj \<noteq>
           getDefaultParamValue (paramBinders this ! fst (ws ! j))
             (Some (stateAfter this obj init ws (snd (ws ! j))))))"

text \<open>
  The state of an encode run whose writes so far are those of the log \<open>ws\<close>: the
  parameter set is \<open>init\<close> after these writes, a task that has read and not yet written
  holds the binder's value and the default against the parameter set after some of
  the writes, and a task that has not settled has not written.
\<close>

definition encodeLog ::
  "'v ModelBinder \<Rightarrow> nat \<Rightarrow> nat \<Rightarrow> 'v js_object \<Rightarrow> params \<Rightarrow> (nat \<times> nat) list
     \<Rightarrow> 'v heap \<times> task_state list \<Rightarrow> bool" where
  "encodeLog this m u obj init ws s =
     (objects (fst s) ! m = obj \<and>
      u < length (searchParams (fst s)) \<and>
      length (snd s) = length (paramBinders this) \<and>
      searchParams (fst s) ! u = stateAfter this obj init ws (length ws) \<and>
      justified this obj init ws \<and>
      (\<forall>i<length (paramBinders this). \<forall>v d. snd s ! i = Awaiting v d \<longrightarrow>
         v = getUrlParamValue (paramBinders this ! i) obj \<and>
         (\<exists>l\<le>length ws. d = getDefaultParamValue (paramBinders this ! i)
                                (Some (stateAfter this obj init ws l)))) \<and>
      (\<forall>i<length (paramBinders this). snd s ! i \<noteq> Settled \<longrightarrow> i \<notin> set (map fst ws)))"

section \<open>Binders that keep to their own slot\<close>

text \<open>
  What the library expects of the accessors it is given, stated for one binder of a
  codec: reading after the binder's own write returns the value written, and a write
  by a binder of another name does not change what this binder reads.
\<close>

definition ownSlot :: "'v ModelBinder \<Rightarrow> 'v ParamBinder \<Rightarrow> bool" where
  "ownSlot this pb =
     ((\<forall>obj v. getUrlParamValueFunc pb (setValueToModelFunc pb obj v) = Some v) \<and>
      (\<forall>pb'\<in>set (paramBinders this). urlParamName pb' \<noteq> urlParamName pb \<longrightarrow>
         (\<forall>obj v. getUrlParamValueFunc pb (setValueToModelFunc pb' obj v) =
                    getUrlParamValueFunc pb obj)))"

text \<open>
  Validators and default suppliers that do not look at the parameter set, and
  consistency checks that depend only on what the binders read from the model.
\<close>

definition contextFree :: "'v ModelBinder \<Rightarrow> bool" where
  "contextFree this =
     (\<forall>pb\<in>set (paramBinders this).
        (\<forall>c. getDefaultParamValue pb c = getDefaultParamValue pb None) \<and>
        (\<forall>v c. isUrlParamValid pb v c = isUrlParamValid pb v None))"

definition consistencyByFields :: "'v ModelBinder \<Rightarrow> bool" where
  "consistencyByFields this =
     (\<forall>pb\<in>set (paramBinders this). \<forall>obj obj'.
        (\<forall>pb'\<in>set (paramBinders this). getUrlParamValueFunc pb' obj = getUrlParamValueFunc pb' obj') \<longrightarrow>
        isModelConsistent pb obj = isModelConsistent pb obj')"

section \<open>How far an encode run has got\<close>



section \<open>Example binders\<close>

text \<open>
  A binder for one string property of the model, with a constant default: the setter
  stores the value under the binder's name and the getter reads it back.
\<close>

definition propertyBinder ::
  "string \<Rightarrow> string \<Rightarrow> (string \<Rightarrow> params option \<Rightarrow> bool) \<Rightarrow> string ParamBinder" where
  "propertyBinder name dflt valid =
     \<lparr>urlParamName = name,
      defaultParamValue = Inl dflt,
      setValueToModelFunc = (\<lambda>obj v. obj(name \<mapsto> v)),
      getUrlParamValueFunc = (\<lambda>obj. obj name),
      isModelConsistentFunc = None,
      isUrlParamValueValidFunc = valid\<rparr>"

text \<open>Binder A accepts every value; binder B accepts only the value 5.\<close>

definition binderA :: "string ParamBinder" where
  "binderA = propertyBinder ''A'' ''a'' (\<lambda>v allParams. True)"

definition binderB :: "string ParamBinder" where
  "binderB = propertyBinder ''B'' ''5'' (\<lambda>v allParams. v = ''5'')"

definition codecAB :: "string ModelBinder" where
  "codecAB = \<lparr>paramBinders = [binderA, binderB]\<rparr>"

text \<open>Two binders whose consistency check asks for \<open>fieldX < fieldY\<close>, read as decimals.\<close>

definition decimal :: "string \<Rightarrow> nat" where
  "decimal s = fold (\<lambda>c n. 10 * n + (of_char c - 48)) s 0"

definition orderedXY :: "string js_object \<Rightarrow> bool" where
  "orderedXY obj =
     (case (obj ''fieldX'', obj ''fieldY'') of
        (Some x, Some y) \<Rightarrow> decimal x < decimal y
      | _ \<Rightarrow> True)"

definition binderX :: "string ParamBinder" where
  "binderX = (propertyBinder ''fieldX'' ''0'' (\<lambda>v allParams. True))
               \<lparr>isModelConsistentFunc := Some orderedXY\<rparr>"

definition binderY :: "string ParamBinder" where
  "binderY = (propertyBinder ''fieldY'' ''9'' (\<lambda>v allParams. True))
               \<lparr>isModelConsistentFunc := Some orderedXY\<rparr>"

definition codecXY :: "string ModelBinder" where
  "codecXY = \<lparr>paramBinders = [binderX, binderY]\<rparr>"

text \<open>
  A page number that is accepted only when the parameter set also gives a page size,
  and a page size with default 10.
\<close>

definition binderPage :: "string ParamBinder" where
  "binderPage = propertyBinder ''page'' ''1''
     (\<lambda>v allParams. case allParams of
                       Some ps \<Rightarrow> ''size'' \<in> set (URLSearchParams_keys ps)
                     | None \<Rightarrow> False)"

definition binderSize :: "string ParamBinder" where
  "binderSize = propertyBinder ''size'' ''10'' (\<lambda>v allParams. True)"

definition codecPage :: "string ModelBinder" where
  "codecPage = \<lparr>paramBinders = [binderPage]\<rparr>"

definition codecSizePage :: "string ModelBinder" where
  "codecSizePage = \<lparr>paramBinders = [binderSize, binderPage]\<rparr>"

text \<open>
  In the example stores an object can be cloned unless it has the property
  \<open>onChange\<close>, which stands for a property that holds a function.
\<close>

definition plainData :: "string js_object \<Rightarrow> bool" where
  "plainData obj = (obj ''onChange'' = None)"

definition storeOf :: "string js_object list \<Rightarrow> params list \<Rightarrow> string heap" where
  "storeOf objs pss =
     \<lparr>objects = objs, searchParams = pss, unhandledRejections = [], cloneable = plainData\<rparr>"

text \<open>A store that holds one parameter set and no model object.\<close>

definition storeWith :: "params \<Rightarrow> string heap" where
  "storeWith ps =
     \<lparr>objects = [], searchParams = [ps], unhandledRejections = [], cloneable = plainData\<rparr>"

text \<open>
  Schedules for a codec of two binders: both keys present, run in list order or in
  reverse; one key present and one absent; one absent and two present (one of them
  without a binder).
\<close>

definition bothPresent :: schedule where
  "bothPresent = \<lparr>absentOrder = [], presentOrder = [0, 1], resetOrder = [0, 1]\<rparr>"

definition reversed :: schedule where
  "reversed = \<lparr>absentOrder = [], presentOrder = [1, 0], resetOrder = [1, 0]\<rparr>"

definition oneEach :: schedule where
  "oneEach = \<lparr>absentOrder = [0], presentOrder = [0], resetOrder = [0, 1]\<rparr>"

definition oneAbsent :: schedule where
  "oneAbsent = \<lparr>absentOrder = [0], presentOrder = [0, 1], resetOrder = [0, 1]\<rparr>"





text \<open>
  Three more codecs, each breaking one of the laws above and nothing else, with the
  stores of a run that decodes, encodes the model and decodes again. The first reads
  back more than it wrote. In the second the default of B depends on whether the
  parameter set has the key C. In the third the consistency check reads a property
  that no binder writes.
\<close>

definition onePresent :: schedule where
  "onePresent = \<lparr>absentOrder = [], presentOrder = [0], resetOrder = [0]\<rparr>"

definition binderEcho :: "string ParamBinder" where
  "binderEcho = (propertyBinder ''A'' ''a'' (\<lambda>v allParams. True))
                  \<lparr>getUrlParamValueFunc := (\<lambda>obj. map_option (\<lambda>v. v @ ''!'') (obj ''A''))\<rparr>"

definition codecEcho :: "string ModelBinder" where
  "codecEcho = \<lparr>paramBinders = [binderEcho]\<rparr>"

definition echoDecoded :: "string heap" where
  "echoDecoded = snd (getModelFromUrlParams codecEcho onePresent (PInstance 0) MUndefined
                        (storeWith [(''A'', ''x'')]))"

definition echoEncoded :: "string heap" where
  "echoEncoded = snd (getUrlParamsFromModel codecEcho [0, 0] (MObject 0) PUndefined echoDecoded)"

definition echoAgain :: "string heap" where
  "echoAgain = snd (getModelFromUrlParams codecEcho onePresent (PInstance 2) MUndefined echoEncoded)"

definition binderDependent :: "string ParamBinder" where
  "binderDependent = (propertyBinder ''B'' ''2'' (\<lambda>v allParams. True))
     \<lparr>defaultParamValue :=
        Inr (\<lambda>allParams. case allParams of
                            Some ps \<Rightarrow> if ''C'' \<in> set (URLSearchParams_keys ps) then ''1'' else ''2''
                          | None \<Rightarrow> ''2'')\<rparr>"

definition binderC :: "string ParamBinder" where
  "binderC = propertyBinder ''C'' ''c'' (\<lambda>v allParams. True)"

definition codecDependent :: "string ModelBinder" where
  "codecDependent = \<lparr>paramBinders = [binderDependent, binderC]\<rparr>"

definition dependentDecoded :: "string heap" where
  "dependentDecoded = snd (getModelFromUrlParams codecDependent bothPresent (PInstance 0) MUndefined
                             (storeWith [(''B'', ''2''), (''C'', ''z'')]))"

definition dependentEncoded :: "string heap" where
  "dependentEncoded =
     snd (getUrlParamsFromModel codecDependent [0, 1, 0, 1] (MObject 0) PUndefined dependentDecoded)"

definition dependentAgain :: "string heap" where
  "dependentAgain =
     snd (getModelFromUrlParams codecDependent oneEach (PInstance 2) MUndefined dependentEncoded)"

definition binderChecked :: "string ParamBinder" where
  "binderChecked = (propertyBinder ''A'' ''a'' (\<lambda>v allParams. True))
                     \<lparr>isModelConsistentFunc := Some (\<lambda>obj. obj ''ok'' \<noteq> None)\<rparr>"

definition codecChecked :: "string ModelBinder" where
  "codecChecked = \<lparr>paramBinders = [binderChecked]\<rparr>"

definition checkedDecoded :: "string heap" where
  "checkedDecoded = snd (getModelFromUrlParams codecChecked onePresent (PInstance 0) (MObject 0)
                           (storeOf [Map.empty(''ok'' \<mapsto> ''yes'')] [[(''A'', ''x'')]]))"

definition checkedEncoded :: "string heap" where
  "checkedEncoded = snd (getUrlParamsFromModel codecChecked [0, 0] (MObject 1) PUndefined checkedDecoded)"

text \<open>
  Two binders with the check \<open>fieldX < fieldY\<close> whose defaults, 10 and 1, fail it, and
  the schedule of a run in which both keys are absent.
\<close>

definition binderFrom :: "string ParamBinder" where
  "binderFrom = (propertyBinder ''fieldX'' ''10'' (\<lambda>v allParams. True))
                  \<lparr>isModelConsistentFunc := Some orderedXY\<rparr>"

definition binderTo :: "string ParamBinder" where
  "binderTo = (propertyBinder ''fieldY'' ''1'' (\<lambda>v allParams. True))
                \<lparr>isModelConsistentFunc := Some orderedXY\<rparr>"

definition codecFromTo :: "string ModelBinder" where
  "codecFromTo = \<lparr>paramBinders = [binderFrom, binderTo]\<rparr>"

definition bothAbsent :: schedule where
  "bothAbsent = \<lparr>absentOrder = [0, 1], presentOrder = [], resetOrder = [0, 1]\<rparr>"

section \<open>Schedules\<close>

lemma inOrder_subset: "set (inOrder order xs) \<subseteq> set xs"
  by (auto simp: inOrder_def)

lemma mset_inOrder:
  assumes "completes order xs"
  shows "mset (inOrder order xs) = mset xs"
proof -
  have m: "mset order = mset [0..<length xs]"
    using assms unfolding completes_def by (metis mset_sort)
  then have "set order = {0..<length xs}"
    by (metis mset_eq_setD set_upt)
  then have "filter (\<lambda>i. i < length xs) order = order"
    by (auto simp: filter_id_conv)
  then have "mset (inOrder order xs) = image_mset (\<lambda>i. xs ! i) (mset order)"
    by (simp add: inOrder_def)
  also have "\<dots> = mset (map (\<lambda>i. xs ! i) [0..<length xs])"
    by (simp add: m)
  also have "\<dots> = mset xs"
    by (simp add: map_nth)
  finally show ?thesis .
qed

lemma set_inOrder: "completes order xs \<Longrightarrow> set (inOrder order xs) = set xs"
  by (metis mset_inOrder set_mset_mset)

section \<open>The phases of decode\<close>

lemma binderFor_registered:
  "key \<in> set (map urlParamName (paramBinders this)) \<Longrightarrow> \<exists>pb. binderFor this key = Some pb"
  by (cases "binderFor this key") (auto simp: find_None_iff)

lemma absentTask_step:
  assumes "key \<in> set (map urlParamName (paramBinders this))"
  shows "absentTask this u (MObject m) key h =
           Inr (h\<lparr>objects := (objects h)[m := assignDefault this (searchParams h ! u) key (objects h ! m)]\<rparr>)"
  using binderFor_registered[OF assms]
  by (auto simp: absentTask_def assignDefault_def setToModel_def)

lemma absent_phase:
  assumes "m < length (objects h)"
    and "set ks \<subseteq> set (map urlParamName (paramBinders this))"
  shows "promiseAll (map (absentTask this u (MObject m)) ks) h =
           (None, h\<lparr>objects := (objects h)
                     [m := fold (assignDefault this (searchParams h ! u)) ks (objects h ! m)]\<rparr>)"
  using assms
proof (induction ks arbitrary: h)
  case Nil
  then show ?case by simp
next
  case (Cons k ks)
  let ?h = "h\<lparr>objects := (objects h)[m := assignDefault this (searchParams h ! u) k (objects h ! m)]\<rparr>"
  have step: "absentTask this u (MObject m) k h = Inr ?h"
    using Cons.prems(2) by (intro absentTask_step) simp
  have "promiseAll (map (absentTask this u (MObject m)) ks) ?h =
          (None, ?h\<lparr>objects := (objects ?h)
                     [m := fold (assignDefault this (searchParams ?h ! u)) ks (objects ?h ! m)]\<rparr>)"
    using Cons.prems by (intro Cons.IH) simp_all
  then show ?case
    using Cons.prems(1) by (simp add: step)
qed

lemma presentTask_step:
  assumes "u \<noteq> n"
  shows "presentTask this u (MObject m) n key (h, e) =
           (h\<lparr>objects := (objects h)[m := assignPresent this (searchParams h ! u) key (objects h ! m)],
              searchParams := (searchParams h)
                [n := if invalidKey this (searchParams h ! u) key
                      then URLSearchParams_delete (searchParams h ! n) key
                      else searchParams h ! n]\<rparr>,
            e \<or> invalidKey this (searchParams h ! u) key)"
  by (auto simp: presentTask_def assignPresent_def invalidKey_def setToModel_def
        parseUrlParamValue_def split: option.splits)

lemma present_phase:
  assumes "m < length (objects h)" and "n < length (searchParams h)"
    and "u < length (searchParams h)" and "u \<noteq> n"
  shows "fold (presentTask this u (MObject m) n) ks (h, e) =
           (h\<lparr>objects := (objects h)
                 [m := fold (assignPresent this (searchParams h ! u)) ks (objects h ! m)],
              searchParams := (searchParams h)
                 [n := filter (\<lambda>p. \<not> (fst p \<in> set ks \<and> invalidKey this (searchParams h ! u) (fst p)))
                         (searchParams h ! n)]\<rparr>,
            e \<or> (\<exists>k\<in>set ks. invalidKey this (searchParams h ! u) k))"
  using assms
proof (induction ks arbitrary: h e)
  case Nil
  then show ?case by simp
next
  case (Cons k ks)
  let ?ps = "searchParams h ! u"
  let ?h = "h\<lparr>objects := (objects h)[m := assignPresent this ?ps k (objects h ! m)],
              searchParams := (searchParams h)
                [n := if invalidKey this ?ps k
                      then URLSearchParams_delete (searchParams h ! n) k
                      else searchParams h ! n]\<rparr>"
  let ?e = "e \<or> invalidKey this ?ps k"
  have ps: "searchParams ?h ! u = ?ps"
    using Cons.prems by simp
  have "fold (presentTask this u (MObject m) n) ks (?h, ?e) =
           (?h\<lparr>objects := (objects ?h)
                 [m := fold (assignPresent this (searchParams ?h ! u)) ks (objects ?h ! m)],
              searchParams := (searchParams ?h)
                 [n := filter (\<lambda>p. \<not> (fst p \<in> set ks \<and> invalidKey this (searchParams ?h ! u) (fst p)))
                         (searchParams ?h ! n)]\<rparr>,
            ?e \<or> (\<exists>k\<in>set ks. invalidKey this (searchParams ?h ! u) k))"
    using Cons.prems by (intro Cons.IH) simp_all
  moreover have "filter (\<lambda>p. \<not> (fst p \<in> set ks \<and> invalidKey this ?ps (fst p)))
                   (if invalidKey this ?ps k then URLSearchParams_delete (searchParams h ! n) k
                    else searchParams h ! n) =
                 filter (\<lambda>p. \<not> (fst p \<in> set (k # ks) \<and> invalidKey this ?ps (fst p))) (searchParams h ! n)"
    by (auto simp: URLSearchParams_delete_def intro: filter_cong)
  ultimately show ?case
    using Cons.prems by (simp add: presentTask_step ps del: set_simps) (auto)
qed


lemma resetTask_step:
  "resetTask u n pb h =
     h\<lparr>searchParams := (searchParams h)
        [n := URLSearchParams_set (searchParams h ! n) (urlParamName pb)
                (getDefaultParamValue pb (Some (searchParams h ! u)))]\<rparr>"
  by (simp add: resetTask_def)

lemma reset_phase:
  assumes "n < length (searchParams h)" and "u < length (searchParams h)" and "u \<noteq> n"
  shows "fold (resetTask u n) pbs h =
           h\<lparr>searchParams := (searchParams h)[n := resetAll pbs (searchParams h ! u) (searchParams h ! n)]\<rparr>"
  using assms
proof (induction pbs arbitrary: h)
  case Nil
  then show ?case by (simp add: resetAll_def)
next
  case (Cons pb pbs)
  define h' where "h' = resetTask u n pb h"
  have sp: "searchParams h' = (searchParams h)
              [n := URLSearchParams_set (searchParams h ! n) (urlParamName pb)
                      (getDefaultParamValue pb (Some (searchParams h ! u)))]"
    and upd: "\<And>x. h'\<lparr>searchParams := x\<rparr> = h\<lparr>searchParams := x\<rparr>"
    by (simp_all add: h'_def resetTask_def)
  have "fold (resetTask u n) pbs h' =
          h'\<lparr>searchParams := (searchParams h')[n := resetAll pbs (searchParams h' ! u) (searchParams h' ! n)]\<rparr>"
    using Cons.prems by (intro Cons.IH) (simp_all add: sp)
  moreover have "fold (resetTask u n) (pb # pbs) h = fold (resetTask u n) pbs h'"
    by (simp add: h'_def)
  ultimately show ?case
    using Cons.prems by (simp add: sp upd resetAll_def)
qed

text \<open>
  Decode on a parameter set that is in the store: the result and the store it leaves,
  for every schedule.
\<close>

lemma canClone_simps [simp]:
  "canClone MUndefined h" "canClone MNull h" "canClone (MPrimitive s) h"
  "canClone (MObject r) h = cloneable h (objects h ! r)"
  by (simp_all add: canClone_def)

text \<open>An object that cannot be cloned: decode throws and leaves the store as it is.\<close>

lemma getModelFromUrlParams_not_cloned:
  "\<not> canClone mdl h \<Longrightarrow>
   getModelFromUrlParams this sched (PInstance u) mdl h = (Inl DataCloneError, h)"
  by (cases mdl) (simp_all add: getModelFromUrlParams_def structuredClone_def)

lemma getModelFromUrlParams_store:
  fixes this :: "'v ModelBinder" and h :: "'v heap" and sched :: schedule and mdl :: model_arg
  assumes u: "u < length (searchParams h)" and c: "canClone mdl h"
  defines "ps \<equiv> searchParams h ! u"
  defines "obj \<equiv> decodedObject this sched ps (clonedModel mdl h)"
  defines "np \<equiv> strippedParams this sched ps"
  shows "getModelFromUrlParams this sched (PInstance u) mdl h =
           (if errorFlag this sched ps
            then (Inr \<lparr>model = None, newParams = Some (length (searchParams h))\<rparr>,
                  h\<lparr>objects := objects h @ [obj], searchParams := searchParams h @ [np]\<rparr>)
            else if inconsistent this obj
            then (Inr \<lparr>model = None, newParams = Some (length (searchParams h))\<rparr>,
                  h\<lparr>objects := objects h @ [obj],
                    searchParams := searchParams h @ [resetAll (inOrder (resetOrder sched) (paramBinders this)) ps np]\<rparr>)
            else (Inr \<lparr>model = Some (length (objects h)), newParams = None\<rparr>,
                  h\<lparr>objects := objects h @ [obj], searchParams := searchParams h @ [np]\<rparr>))"
proof -
  let ?m = "length (objects h)" and ?n = "length (searchParams h)"
  let ?obj0 = "clonedModel mdl h"
  let ?h2 = "h\<lparr>objects := objects h @ [?obj0], searchParams := searchParams h @ [ps]\<rparr>"
  let ?ak = "inOrder (absentOrder sched) (absentKeys this ps)"
  let ?pk = "inOrder (presentOrder sched) (URLSearchParams_keys ps)"
  have alloc: "(case mdl of MObject r \<Rightarrow> structuredClone r h | _ \<Rightarrow> Inr (newObject h)) =
                 Inr (?m, h\<lparr>objects := objects h @ [?obj0]\<rparr>)"
    using c by (cases mdl) (simp_all add: structuredClone_def newObject_def clonedModel_def)
  have ps2: "searchParams ?h2 ! u = ps"
    using u by (simp add: ps_def nth_append)
  have sub: "set ?ak \<subseteq> set (map urlParamName (paramBinders this))"
    using inOrder_subset[of "absentOrder sched" "absentKeys this ps"]
    by (auto simp: absentKeys_def)
  let ?h3 = "?h2\<lparr>objects := (objects ?h2)[?m := fold (assignDefault this ps) ?ak ?obj0]\<rparr>"
  let ?h4 = "h\<lparr>objects := objects h @ [obj], searchParams := searchParams h @ [np]\<rparr>"
  have p1: "promiseAll (map (absentTask this u (MObject ?m)) ?ak) hx = (None, ?h3)"
    if "hx = ?h2" for hx
    using absent_phase[of ?m ?h2 ?ak this u] sub ps2 that by simp
  have p2: "fold (presentTask this u (MObject ?m) ?n) ?pk (hx, False) =
              (?h4, errorFlag this sched ps)"
    if "hx = ?h3" for hx
    using present_phase[of ?m ?h3 ?n u this ?pk False] u ps2 that
    by (simp add: obj_def np_def decodedObject_def strippedParams_def errorFlag_def
          list_ex_iff nth_append)
  have p3: "fold (resetTask u ?n) pbs hx =
              h\<lparr>objects := objects h @ [obj], searchParams := searchParams h @ [resetAll pbs ps np]\<rparr>"
    if "hx = ?h4" for pbs hx
    using reset_phase[of ?n ?h4 u pbs] u that by (simp add: nth_append ps_def)
  have incons: "list_ex Not (map (\<lambda>pb. isModelConsistent pb obj) (paramBinders this))
                  = inconsistent this obj"
    by (auto simp: inconsistent_def list_ex_iff)
  show ?thesis
    unfolding getModelFromUrlParams_def
    using u
    by (simp add: alloc newURLSearchParams_def Let_def nth_append ps_def[symmetric]
          absentKeys_def[symmetric] p1 p2 p3 incons)
qed


lemma errorFlag_iff:
  "completes (presentOrder sched) (URLSearchParams_keys ps) \<Longrightarrow>
   errorFlag this sched ps = (\<exists>key\<in>set (URLSearchParams_keys ps). invalidKey this ps key)"
  by (simp add: errorFlag_def list_ex_iff set_inOrder)

lemma errorFlag_present:
  "errorFlag this sched ps \<Longrightarrow> \<exists>key\<in>set (URLSearchParams_keys ps). invalidKey this ps key"
  using inOrder_subset[of "presentOrder sched" "URLSearchParams_keys ps"]
  by (auto simp: errorFlag_def list_ex_iff)

lemma strippedParams_eq:
  "completes (presentOrder sched) (URLSearchParams_keys ps) \<Longrightarrow>
   strippedParams this sched ps = filter (\<lambda>p. \<not> invalidKey this ps (fst p)) ps"
  by (auto simp: strippedParams_def set_inOrder URLSearchParams_keys_def intro: filter_cong)


section \<open>Registration\<close>

text \<open>
  C9. \<open>addParamBinder\<close> throws when its argument is not a \<open>ParamBinder\<close> instance, and
  throws when the argument's name is the name of a registered binder; in both cases
  the registry is as before. Otherwise the binder is appended to the registry and the
  codec itself is returned.
\<close>

theorem addParamBinder_contract:
  "(\<exists>e. addParamBinder this NotParamBinder = (this, Inl e)) \<and>
   (urlParamName pb \<in> set (map urlParamName (paramBinders this)) \<longrightarrow>
      (\<exists>e. addParamBinder this (ParamBinderInstance pb) = (this, Inl e))) \<and>
   (urlParamName pb \<notin> set (map urlParamName (paramBinders this)) \<longrightarrow>
      (\<exists>this'. addParamBinder this (ParamBinderInstance pb) = (this', Inr this') \<and>
         paramBinders this' = paramBinders this @ [pb]))"
  by (auto simp: addParamBinder_def list_ex_iff Let_def intro: rev_image_eqI)

theorem addParamBinder_contract_witness:
  "urlParamName binderB \<in> set (map urlParamName (paramBinders codecAB)) \<and>
   (\<exists>e. addParamBinder codecAB (ParamBinderInstance binderB) = (codecAB, Inl e)) \<and>
   urlParamName binderX \<notin> set (map urlParamName (paramBinders codecAB)) \<and>
   (\<exists>this'. addParamBinder codecAB (ParamBinderInstance binderX) = (this', Inr this') \<and>
      paramBinders this' = [binderA, binderB, binderX])"
  using addParamBinder_contract[of codecAB binderB] addParamBinder_contract[of codecAB binderX]
  by (simp add: codecAB_def binderA_def binderB_def binderX_def propertyBinder_def)

text \<open>
  Registration keeps the names of the registry different from one another, so the
  properties below may assume it of any codec built with \<open>addParamBinder\<close>.
\<close>

lemma addParamBinder_names_distinct:
  assumes "distinct (map urlParamName (paramBinders this))"
  shows "distinct (map urlParamName (paramBinders (fst (addParamBinder this arg))))"
proof (cases arg)
  case NotParamBinder
  then show ?thesis using assms by (simp add: addParamBinder_def)
next
  case (ParamBinderInstance pb)
  then show ?thesis
    using assms by (auto simp: addParamBinder_def list_ex_iff Let_def)
qed

section \<open>The result of decode\<close>

text \<open>
  C4 as stated fails: a decode call need not return. When the caller's model is an
  object that cannot be cloned, \<open>structuredClone\<close> throws and the call rejects with
  that error: the caller gets neither a model nor a new parameter set.
\<close>

theorem decode_rejects_uncloneable_model:
  "\<not> canClone (MObject 0) (storeOf [Map.empty(''onChange'' \<mapsto> ''x => x'')] [[(''A'', ''x'')]]) \<and>
   fst (getModelFromUrlParams codecAB oneEach (PInstance 0) (MObject 0)
          (storeOf [Map.empty(''onChange'' \<mapsto> ''x => x'')] [[(''A'', ''x'')]])) =
     Inl DataCloneError"
  by (simp add: getModelFromUrlParams_def structuredClone_def storeOf_def plainData_def)

text \<open>
  C4, amended. A decode call on a parameter set either rejects with the
  \<open>DataCloneError\<close> of a model object that cannot be cloned, before it writes anything,
  or returns a result with exactly one of the two fields: the model when no present
  key is invalid and every consistency check passes on the assembled model, the new
  parameter set otherwise. A call on anything else than a parameter set throws at
  the guard.
\<close>

theorem decode_result_variants:
  fixes this :: "'v ModelBinder" and h :: "'v heap"
  assumes "u < length (searchParams h)"
    and "completes (presentOrder sched) (URLSearchParams_keys (searchParams h ! u))"
  shows "(canClone mdl h \<longrightarrow>
           (\<exists>r h'. getModelFromUrlParams this sched (PInstance u) mdl h = (Inr r, h') \<and>
              (model r = None) \<noteq> (newParams r = None) \<and>
              (model r \<noteq> None \<longleftrightarrow>
                 (\<forall>key\<in>set (URLSearchParams_keys (searchParams h ! u)).
                     \<not> invalidKey this (searchParams h ! u) key) \<and>
                 (\<forall>pb\<in>set (paramBinders this).
                     isModelConsistent pb (objects h' ! length (objects h)))))) \<and>
         (\<not> canClone mdl h \<longrightarrow>
            getModelFromUrlParams this sched (PInstance u) mdl h = (Inl DataCloneError, h)) \<and>
         ((\<forall>r. other \<noteq> PInstance r) \<longrightarrow>
            getModelFromUrlParams this sched other mdl h =
              (Inl (Error ''urlParams must be instance of URLSearchParams''), h))"
proof -
  have "\<exists>r h'. getModelFromUrlParams this sched (PInstance u) mdl h = (Inr r, h') \<and>
              (model r = None) \<noteq> (newParams r = None) \<and>
              (model r \<noteq> None \<longleftrightarrow>
                 (\<forall>key\<in>set (URLSearchParams_keys (searchParams h ! u)).
                     \<not> invalidKey this (searchParams h ! u) key) \<and>
                 (\<forall>pb\<in>set (paramBinders this).
                     isModelConsistent pb (objects h' ! length (objects h))))"
    if "canClone mdl h"
    using assms that
    by (auto simp: getModelFromUrlParams_store errorFlag_iff inconsistent_def list_ex_iff)
  moreover have "getModelFromUrlParams this sched other mdl h =
              (Inl (Error ''urlParams must be instance of URLSearchParams''), h)"
    if "\<forall>r. other \<noteq> PInstance r"
    using that by (cases other) (simp_all add: getModelFromUrlParams_def)
  ultimately show ?thesis
    using getModelFromUrlParams_not_cloned[of mdl h this sched u] by blast
qed

theorem decode_result_variants_witness:
  "0 < length (searchParams (storeWith [(''A'', ''x''), (''B'', ''bad'')])) \<and>
   completes (presentOrder bothPresent)
     (URLSearchParams_keys (searchParams (storeWith [(''A'', ''x''), (''B'', ''bad'')]) ! 0)) \<and>
   canClone MUndefined (storeWith [(''A'', ''x''), (''B'', ''bad'')]) \<and>
   (\<exists>r h'. getModelFromUrlParams codecAB bothPresent (PInstance 0) MUndefined
          (storeWith [(''A'', ''x''), (''B'', ''bad'')]) = (Inr r, h') \<and>
      model r = None \<and> newParams r \<noteq> None)"
  using decode_result_variants[of 0 "storeWith [(''A'', ''x''), (''B'', ''bad'')]" bothPresent
          MUndefined codecAB PUndefined]
  by (auto simp: storeWith_def bothPresent_def completes_def URLSearchParams_keys_def
        invalidKey_def codecAB_def binderA_def binderB_def propertyBinder_def
        URLSearchParams_get_def isUrlParamValid_def)

section \<open>Stripping invalid keys\<close>

text \<open>
  C2. For a model argument that can be cloned: when a present key with a registered
  binder fails that binder's validity check, decode returns only a new parameter set
  and no model, and the new parameter set is the input with exactly the invalid keys
  removed: every other pair stays, with its value, in its place.
\<close>

theorem invalid_keys_stripped:
  fixes this :: "'v ModelBinder" and h :: "'v heap"
  assumes "u < length (searchParams h)"
    and "completes (presentOrder sched) (URLSearchParams_keys (searchParams h ! u))"
    and "\<exists>key\<in>set (URLSearchParams_keys (searchParams h ! u)). invalidKey this (searchParams h ! u) key"
    and "canClone mdl h"
  shows "\<exists>n h'. getModelFromUrlParams this sched (PInstance u) mdl h =
                   (Inr \<lparr>model = None, newParams = Some n\<rparr>, h') \<and>
                 searchParams h' ! n =
                   filter (\<lambda>p. \<not> invalidKey this (searchParams h ! u) (fst p)) (searchParams h ! u)"
  using assms
  by (simp add: getModelFromUrlParams_store errorFlag_iff strippedParams_eq)

theorem invalid_keys_stripped_witness:
  "0 < length (searchParams (storeWith [(''A'', ''x''), (''B'', ''bad'')])) \<and>
   completes (presentOrder reversed)
     (URLSearchParams_keys (searchParams (storeWith [(''A'', ''x''), (''B'', ''bad'')]) ! 0)) \<and>
   invalidKey codecAB [(''A'', ''x''), (''B'', ''bad'')] ''B'' \<and>
   canClone MUndefined (storeWith [(''A'', ''x''), (''B'', ''bad'')]) \<and>
   (\<exists>n h'. getModelFromUrlParams codecAB reversed (PInstance 0) MUndefined
              (storeWith [(''A'', ''x''), (''B'', ''bad'')]) =
                (Inr \<lparr>model = None, newParams = Some n\<rparr>, h') \<and>
            searchParams h' ! n = [(''A'', ''x'')])"
  using invalid_keys_stripped[of 0 "storeWith [(''A'', ''x''), (''B'', ''bad'')]" reversed codecAB MUndefined]
  by (auto simp: storeWith_def reversed_def completes_def URLSearchParams_keys_def
        invalidKey_def codecAB_def binderA_def binderB_def propertyBinder_def
        URLSearchParams_get_def isUrlParamValid_def)

section \<open>The model handed to \<open>setToModel\<close>\<close>

lemma setToModel_rejects_non_object:
  "(\<forall>r. mdl \<noteq> MObject r) \<Longrightarrow>
   setToModel pb mdl v h = Inl (Error ''model must be a non-null object'')"
  by (cases mdl) (simp_all add: setToModel_def)

text \<open>
  C10. Whatever the caller passes as the model, no call of \<open>setToModel\<close> made by decode
  takes the branch that rejects a model that is not an object: decode does not fail
  with that error, and no such rejection is left unhandled by the task that does not
  await the call.
\<close>

theorem decode_setToModel_never_rejects:
  fixes this :: "'v ModelBinder" and h :: "'v heap"
  assumes "inStore urlParamsArg h"
  shows "fst (getModelFromUrlParams this sched urlParamsArg mdl h) \<noteq>
           Inl (Error ''model must be a non-null object'') \<and>
         unhandledRejections (snd (getModelFromUrlParams this sched urlParamsArg mdl h)) =
           unhandledRejections h"
proof (cases urlParamsArg)
  case (PInstance u)
  show ?thesis
  proof (cases "canClone mdl h")
    case True
    then show ?thesis
      using assms PInstance by (simp add: inStore_def getModelFromUrlParams_store)
  next
    case False
    then show ?thesis
      using PInstance by (simp add: getModelFromUrlParams_not_cloned)
  qed
qed (simp_all add: getModelFromUrlParams_def)

theorem decode_setToModel_never_rejects_witness:
  "inStore (PInstance 0) (storeWith [(''A'', ''x'')]) \<and>
   fst (getModelFromUrlParams codecAB oneEach (PInstance 0) (MPrimitive ''seven'')
          (storeWith [(''A'', ''x'')])) \<noteq>
     Inl (Error ''model must be a non-null object'') \<and>
   unhandledRejections (snd (getModelFromUrlParams codecAB oneEach (PInstance 0)
       (MPrimitive ''seven'') (storeWith [(''A'', ''x'')]))) = []"
  using decode_setToModel_never_rejects[of "PInstance 0" "storeWith [(''A'', ''x'')]"
          codecAB oneEach "MPrimitive ''seven''"]
  by (simp add: inStore_def storeWith_def)

section \<open>Resetting after a failed consistency check\<close>

lemma get_delete:
  "URLSearchParams_get (URLSearchParams_delete ps k) k' =
     (if k' = k then None else URLSearchParams_get ps k')"
  by (induction ps) (auto simp: URLSearchParams_get_def URLSearchParams_delete_def)

lemma get_set:
  "URLSearchParams_get (URLSearchParams_set ps k v) k' =
     (if k' = k then Some v else URLSearchParams_get ps k')"
proof (induction ps)
  case Nil
  then show ?case by (simp add: URLSearchParams_get_def)
next
  case (Cons p ps)
  show ?case
  proof (cases "fst p = k")
    case True
    then show ?thesis
      using get_delete[of ps k k']
      by (cases p) (auto simp: URLSearchParams_get_def)
  next
    case False
    then show ?thesis
      using Cons.IH by (cases p) (auto simp: URLSearchParams_get_def)
  qed
qed

lemma get_resetAll_other:
  "k \<notin> set (map urlParamName pbs) \<Longrightarrow>
   URLSearchParams_get (resetAll pbs ps np) k = URLSearchParams_get np k"
  unfolding resetAll_def
  by (induction pbs arbitrary: np) (auto simp: get_set)

lemma get_resetAll:
  assumes "distinct (map urlParamName pbs)" and "pb \<in> set pbs"
  shows "URLSearchParams_get (resetAll pbs ps np) (urlParamName pb) =
           Some (getDefaultParamValue pb (Some ps))"
  using assms
proof (induction pbs arbitrary: np)
  case Nil
  then show ?case by simp
next
  case (Cons q pbs)
  have unroll: "resetAll (q # pbs) ps np =
                  resetAll pbs ps (URLSearchParams_set np (urlParamName q) (getDefaultParamValue q (Some ps)))"
    by (simp add: resetAll_def)
  show ?case
  proof (cases "pb = q")
    case True
    then have "urlParamName pb \<notin> set (map urlParamName pbs)"
      using Cons.prems(1) by simp
    then show ?thesis
      using True by (simp add: unroll get_resetAll_other get_set)
  next
    case False
    then show ?thesis
      using Cons by (simp add: unroll)
  qed
qed

text \<open>
  C3. For a model argument that can be cloned: when no present key is invalid but the
  consistency check of some registered binder returns false on the assembled model,
  decode returns only a new parameter set and no model, and in that set the key of
  every registered binder holds the binder's default value, computed with the input
  parameter set as context.
\<close>

theorem consistency_failure_resets:
  fixes this :: "'v ModelBinder" and h :: "'v heap"
  assumes "u < length (searchParams h)"
    and "completes (presentOrder sched) (URLSearchParams_keys (searchParams h ! u))"
    and "completes (resetOrder sched) (paramBinders this)"
    and "distinct (map urlParamName (paramBinders this))"
    and "\<forall>key\<in>set (URLSearchParams_keys (searchParams h ! u)). \<not> invalidKey this (searchParams h ! u) key"
    and "\<exists>pb\<in>set (paramBinders this).
           \<not> isModelConsistent pb
               (objects (snd (getModelFromUrlParams this sched (PInstance u) mdl h)) ! length (objects h))"
    and "canClone mdl h"
  shows "\<exists>n h'. getModelFromUrlParams this sched (PInstance u) mdl h =
                   (Inr \<lparr>model = None, newParams = Some n\<rparr>, h') \<and>
                 (\<forall>pb\<in>set (paramBinders this).
                     URLSearchParams_get (searchParams h' ! n) (urlParamName pb) =
                       Some (getDefaultParamValue pb (Some (searchParams h ! u))))"
proof -
  let ?ps = "searchParams h ! u"
  let ?obj = "decodedObject this sched ?ps (clonedModel mdl h)"
  let ?order = "inOrder (resetOrder sched) (paramBinders this)"
  have noerr: "\<not> errorFlag this sched ?ps"
    using assms(2,5) by (simp add: errorFlag_iff)
  have "objects (snd (getModelFromUrlParams this sched (PInstance u) mdl h)) ! length (objects h) = ?obj"
    using assms(1,7) by (simp add: getModelFromUrlParams_store)
  then have incons: "inconsistent this ?obj"
    using assms(6) by (auto simp: inconsistent_def list_ex_iff)
  have m: "mset ?order = mset (paramBinders this)"
    using assms(3) by (rule mset_inOrder)
  then have "mset (map urlParamName ?order) = mset (map urlParamName (paramBinders this))"
    by (metis mset_map)
  then have d: "distinct (map urlParamName ?order)"
    using assms(4) by (metis mset_eq_imp_distinct_iff)
  have s: "set ?order = set (paramBinders this)"
    using m by (metis set_mset_mset)
  show ?thesis
    using assms(1,7) noerr incons d s
    by (simp add: getModelFromUrlParams_store get_resetAll)
qed

theorem consistency_failure_resets_witness:
  "0 < length (searchParams (storeWith [(''fieldX'', ''10''), (''fieldY'', ''1'')])) \<and>
   completes (presentOrder bothPresent)
     (URLSearchParams_keys (searchParams (storeWith [(''fieldX'', ''10''), (''fieldY'', ''1'')]) ! 0)) \<and>
   completes (resetOrder bothPresent) (paramBinders codecXY) \<and>
   distinct (map urlParamName (paramBinders codecXY)) \<and>
   \<not> invalidKey codecXY [(''fieldX'', ''10''), (''fieldY'', ''1'')] ''fieldX'' \<and>
   \<not> invalidKey codecXY [(''fieldX'', ''10''), (''fieldY'', ''1'')] ''fieldY'' \<and>
   \<not> isModelConsistent binderX
       (objects (snd (getModelFromUrlParams codecXY bothPresent (PInstance 0) MUndefined
           (storeWith [(''fieldX'', ''10''), (''fieldY'', ''1'')]))) ! 0) \<and>
   (\<exists>n h'. getModelFromUrlParams codecXY bothPresent (PInstance 0) MUndefined
              (storeWith [(''fieldX'', ''10''), (''fieldY'', ''1'')]) =
                (Inr \<lparr>model = None, newParams = Some n\<rparr>, h') \<and>
            URLSearchParams_get (searchParams h' ! n) ''fieldX'' = Some ''0'' \<and>
            URLSearchParams_get (searchParams h' ! n) ''fieldY'' = Some ''9'')"
proof -
  let ?h = "storeWith [(''fieldX'', ''10''), (''fieldY'', ''1'')]"
  have run: "objects (snd (getModelFromUrlParams codecXY bothPresent (PInstance 0) MUndefined ?h)) ! 0 =
               (Map.empty(''fieldX'' \<mapsto> ''10'', ''fieldY'' \<mapsto> ''1''))"
    by (simp add: getModelFromUrlParams_store storeWith_def decodedObject_def clonedModel_def
          bothPresent_def inOrder_def absentKeys_def URLSearchParams_keys_def codecXY_def
          binderX_def binderY_def propertyBinder_def assignPresent_def URLSearchParams_get_def
          isUrlParamValid_def errorFlag_def invalidKey_def inconsistent_def isModelConsistent_def
          orderedXY_def decimal_def strippedParams_def)
  have bad: "\<not> isModelConsistent binderX (Map.empty(''fieldX'' \<mapsto> ''10'', ''fieldY'' \<mapsto> ''1''))"
    by (simp add: isModelConsistent_def binderX_def orderedXY_def decimal_def propertyBinder_def)
  show ?thesis
    using consistency_failure_resets[of 0 ?h bothPresent codecXY MUndefined] run bad
    by (auto simp: storeWith_def bothPresent_def completes_def URLSearchParams_keys_def
        invalidKey_def codecXY_def binderX_def binderY_def propertyBinder_def
        URLSearchParams_get_def isUrlParamValid_def getDefaultParamValue_def)
qed

section \<open>Who owns what decode and encode write\<close>

lemma fold_invariant:
  assumes "\<And>x s. I s \<Longrightarrow> I (f x s)" and "I s"
  shows "I (fold f xs s)"
  using assms(2) by (induction xs arbitrary: s) (auto intro: assms(1))


lemma encodeStep_frame:
  "encodeFrame h u n s \<Longrightarrow> encodeFrame h u n (encodeStep this m u i s)"
  by (cases s)
     (auto simp: encodeFrame_def encodeStep_def Let_def split: task_state.splits)

lemma encode_frame:
  "encodeFrame h u n s \<Longrightarrow> encodeFrame h u n (fold (encodeStep this m u) rs s)"
  by (rule fold_invariant) (rule encodeStep_frame)

text \<open>
  C1 as stated fails for encode: handed a parameter set, encode writes into that very
  object. Here the caller's empty parameter set holds the pair for A afterwards.
\<close>

theorem encode_writes_supplied_params:
  "searchParams (storeOf [Map.empty(''A'' \<mapsto> ''x'')] [[]]) ! 0 = [] \<and>
   fst (getUrlParamsFromModel codecAB [0, 1, 0, 1] (MObject 0) (PInstance 0)
          (storeOf [Map.empty(''A'' \<mapsto> ''x'')] [[]])) = Inr 0 \<and>
   searchParams (snd (getUrlParamsFromModel codecAB [0, 1, 0, 1] (MObject 0) (PInstance 0)
          (storeOf [Map.empty(''A'' \<mapsto> ''x'')] [[]]))) ! 0 = [(''A'', ''x'')]"
  by (simp add: getUrlParamsFromModel_def storeOf_def codecAB_def binderA_def binderB_def
        propertyBinder_def encodeStep_def getUrlParamValue_def getDefaultParamValue_def)

text \<open>
  C1, amended. Decode mutates neither the model nor the parameter set it is given, nor
  any other object that exists when it is called: it writes only to the copies it
  allocates. Encode mutates no model object, and no parameter set other than the one
  it is handed; called without a parameter set it writes only to a fresh one.
\<close>

theorem caller_objects_kept:
  fixes this :: "'v ModelBinder" and h :: "'v heap"
  assumes "inStore urlParamsArg h"
  shows "take (length (objects h))
           (objects (snd (getModelFromUrlParams this sched urlParamsArg mdl h))) = objects h \<and>
         take (length (searchParams h))
           (searchParams (snd (getModelFromUrlParams this sched urlParamsArg mdl h))) = searchParams h \<and>
         objects (snd (getUrlParamsFromModel this resumptions mdl searchParamsArg h)) = objects h \<and>
         (\<forall>r<length (searchParams h). searchParamsArg \<noteq> PInstance r \<longrightarrow>
            searchParams (snd (getUrlParamsFromModel this resumptions mdl searchParamsArg h)) ! r =
              searchParams h ! r)"
proof -
  have dec: "take (length (objects h))
               (objects (snd (getModelFromUrlParams this sched urlParamsArg mdl h))) = objects h \<and>
             take (length (searchParams h))
               (searchParams (snd (getModelFromUrlParams this sched urlParamsArg mdl h))) = searchParams h"
  proof (cases urlParamsArg)
    case (PInstance u)
    show ?thesis
    proof (cases "canClone mdl h")
      case True
      then show ?thesis
        using assms PInstance by (simp add: inStore_def getModelFromUrlParams_store)
    next
      case False
      then show ?thesis
        using PInstance by (simp add: getModelFromUrlParams_not_cloned)
    qed
  qed (simp_all add: getModelFromUrlParams_def)
  have enc: "objects (snd (getUrlParamsFromModel this resumptions mdl searchParamsArg h)) = objects h \<and>
             (\<forall>r<length (searchParams h). searchParamsArg \<noteq> PInstance r \<longrightarrow>
                searchParams (snd (getUrlParamsFromModel this resumptions mdl searchParamsArg h)) ! r =
                  searchParams h ! r)"
  proof (cases mdl)
    case (MObject m)
    let ?n = "length (paramBinders this)"
    show ?thesis
    proof (cases "\<exists>u. searchParamsArg = PInstance u")
      case True
      then obtain u where u: "searchParamsArg = PInstance u" by blast
      have "encodeFrame h u ?n (fold (encodeStep this m u) resumptions (h, replicate ?n Pending))"
        by (rule encode_frame) (simp add: encodeFrame_def)
      then show ?thesis
        using MObject u
        by (auto simp: getUrlParamsFromModel_def encodeFrame_def split: prod.splits)
    next
      case False
      let ?u = "length (searchParams h)"
      let ?h1 = "h\<lparr>searchParams := searchParams h @ [[]]\<rparr>"
      have new: "(case searchParamsArg of PInstance r \<Rightarrow> (r, h) | _ \<Rightarrow> newURLSearchParams [] h) = (?u, ?h1)"
        using False by (cases searchParamsArg) (simp_all add: newURLSearchParams_def)
      have "encodeFrame ?h1 ?u ?n (fold (encodeStep this m ?u) resumptions (?h1, replicate ?n Pending))"
        by (rule encode_frame) (simp add: encodeFrame_def)
      then show ?thesis
        using MObject
        by (auto simp: getUrlParamsFromModel_def new encodeFrame_def nth_append split: prod.splits)
    qed
  qed (simp_all add: getUrlParamsFromModel_def)
  from dec enc show ?thesis by blast
qed

theorem caller_objects_kept_witness:
  "inStore (PInstance 0) (storeOf [Map.empty(''A'' \<mapsto> ''x'')] [[(''B'', ''5'')]]) \<and>
   (take 1 (objects (snd (getModelFromUrlParams codecAB oneEach (PInstance 0) (MObject 0)
       (storeOf [Map.empty(''A'' \<mapsto> ''x'')] [[(''B'', ''5'')]])))) ! 0) ''A'' = Some ''x'' \<and>
   take 1 (searchParams (snd (getModelFromUrlParams codecAB oneEach (PInstance 0) (MObject 0)
       (storeOf [Map.empty(''A'' \<mapsto> ''x'')] [[(''B'', ''5'')]])))) = [[(''B'', ''5'')]] \<and>
   searchParams (snd (getUrlParamsFromModel codecAB [0, 1, 0, 1] (MObject 0) PUndefined
       (storeOf [Map.empty(''A'' \<mapsto> ''x'')] [[(''B'', ''5'')]]))) ! 0 = [(''B'', ''5'')]"
  using caller_objects_kept[of "PInstance 0" "storeOf [Map.empty(''A'' \<mapsto> ''x'')] [[(''B'', ''5'')]]"
          codecAB oneEach "MObject 0" "[0, 1, 0, 1]" PUndefined]
  by (simp add: inStore_def storeOf_def)

section \<open>Default suppression in encode\<close>

lemma encode_start:
  fixes h :: "'v heap"
  assumes "inStore arg h"
  shows "\<exists>u h1. (case arg of PInstance r \<Rightarrow> (r, h) | _ \<Rightarrow> newURLSearchParams [] h) = (u, h1) \<and>
           objects h1 = objects h \<and> u < length (searchParams h1) \<and>
           searchParams h1 ! u = suppliedParams arg h"
  using assms
  by (cases arg) (simp_all add: inStore_def newURLSearchParams_def suppliedParams_def)

lemma encode_all_default:
  fixes h1 :: "'v heap"
  assumes eq: "\<forall>pb\<in>set (paramBinders this). getUrlParamValue pb (objects h1 ! m) = getDefaultParamValue pb (Some [])"
    and u: "u < length (searchParams h1)" and empty: "searchParams h1 ! u = []"
  shows "searchParams (fst (fold (encodeStep this m u) rs (h1, replicate (length (paramBinders this)) Pending))) ! u = []"
proof -
  let ?pbs = "paramBinders this"
  let ?I = "\<lambda>s. objects (fst s) = objects h1 \<and> u < length (searchParams (fst s)) \<and>
                 searchParams (fst s) ! u = [] \<and> length (snd s) = length ?pbs \<and>
                 (\<forall>i<length ?pbs. \<forall>v d. snd s ! i = Awaiting v d \<longrightarrow> v = d)"
  have step: "?I (encodeStep this m u i s)" if "?I s" for i s
  proof (cases s)
    case (Pair h' ts)
    show ?thesis
    proof (cases "i < length ?pbs")
      case False
      then show ?thesis using that Pair by (simp add: encodeStep_def)
    next
      case True
      then have pb: "?pbs ! i \<in> set ?pbs" by simp
      show ?thesis
      proof (cases "ts ! i")
        case Pending
        then show ?thesis
          using that Pair True eq pb
          by (auto simp: encodeStep_def Let_def nth_list_update)
      next
        case (Awaiting v d)
        then have "v = d" using that Pair True by auto
        then show ?thesis
          using that Pair True Awaiting
          by (auto simp: encodeStep_def Let_def nth_list_update)
      next
        case Settled
        then show ?thesis using that Pair True by (simp add: encodeStep_def Let_def)
      qed
    qed
  qed
  have "?I (fold (encodeStep this m u) rs (h1, replicate (length ?pbs) Pending))"
    by (rule fold_invariant[where I = ?I]) (use step u empty in auto)
  then show ?thesis by simp
qed






lemma stateAfter_snoc:
  "l \<le> length ws \<Longrightarrow> stateAfter this obj init (ws @ [w]) l = stateAfter this obj init ws l"
  by (simp add: stateAfter_def)

lemma stateAfter_write:
  "stateAfter this obj init (ws @ [w]) (Suc (length ws)) =
     URLSearchParams_set (stateAfter this obj init ws (length ws))
       (urlParamName (paramBinders this ! fst w)) (getUrlParamValue (paramBinders this ! fst w) obj)"
  by (simp add: stateAfter_def applyWrites_def)

lemma justified_snoc:
  assumes j: "justified this obj init ws"
    and i: "i < length (paramBinders this)" "i \<notin> set (map fst ws)"
    and l: "l \<le> length ws"
    and differs: "getUrlParamValue (paramBinders this ! i) obj \<noteq>
                  getDefaultParamValue (paramBinders this ! i) (Some (stateAfter this obj init ws l))"
  shows "justified this obj init (ws @ [(i, l)])"
  unfolding justified_def
proof (intro conjI allI impI)
  show "distinct (map fst (ws @ [(i, l)]))"
    using j i(2) by (simp add: justified_def)
next
  fix k assume k: "k < length (ws @ [(i, l)])"
  let ?ws = "ws @ [(i, l)]"
  show "fst (?ws ! k) < length (paramBinders this)"
    using j i(1) k by (cases "k < length ws") (simp_all add: justified_def nth_append)
  show "snd (?ws ! k) \<le> k"
    using j l k by (cases "k < length ws") (simp_all add: justified_def nth_append)
  show "getUrlParamValue (paramBinders this ! fst (?ws ! k)) obj \<noteq>
           getDefaultParamValue (paramBinders this ! fst (?ws ! k))
             (Some (stateAfter this obj init ?ws (snd (?ws ! k))))"
  proof (cases "k < length ws")
    case True
    then have "snd (ws ! k) \<le> length ws"
      using j by (auto simp: justified_def intro: order_trans[where y = k])
    then show ?thesis
      using j True by (simp add: justified_def nth_append stateAfter_snoc)
  next
    case False
    then have "k = length ws" using k by simp
    then show ?thesis
      using differs l by (simp add: stateAfter_snoc)
  qed
qed

lemma encodeStep_log:
  fixes this :: "'v ModelBinder"
  assumes L: "encodeLog this m u obj init ws s"
  shows "\<exists>ws'. encodeLog this m u obj init ws' (encodeStep this m u i s)"
proof (cases s)
  case (Pair h' ts)
  let ?pbs = "paramBinders this"
  let ?v = "\<lambda>i. getUrlParamValue (?pbs ! i) obj"
  let ?cur = "searchParams h' ! u"
  have o: "objects h' ! m = obj" and ul: "u < length (searchParams h')"
    and len: "length ts = length ?pbs"
    and cur: "?cur = stateAfter this obj init ws (length ws)"
    and just: "justified this obj init ws"
    and aw: "\<And>k v d. k < length ?pbs \<Longrightarrow> ts ! k = Awaiting v d \<Longrightarrow>
               v = ?v k \<and> (\<exists>l\<le>length ws. d = getDefaultParamValue (?pbs ! k)
                                (Some (stateAfter this obj init ws l)))"
    and unsettled: "\<And>k. k < length ?pbs \<Longrightarrow> ts ! k \<noteq> Settled \<Longrightarrow> k \<notin> set (map fst ws)"
    using L Pair unfolding encodeLog_def by auto
  show ?thesis
  proof (cases "i < length ?pbs")
    case False
    then have "encodeStep this m u i s = s"
      using Pair by (simp add: encodeStep_def)
    then show ?thesis using L by auto
  next
    case True
    show ?thesis
    proof (cases "ts ! i")
      case Settled
      then have "encodeStep this m u i s = s"
        using Pair True len by (simp add: encodeStep_def Let_def)
      then show ?thesis using L by auto
    next
      case Pending
      let ?d = "getDefaultParamValue (?pbs ! i) (Some ?cur)"
      have step: "encodeStep this m u i s = (h', ts[i := Awaiting (?v i) ?d])"
        using Pair True Pending len o by (simp add: encodeStep_def Let_def)
      have "encodeLog this m u obj init ws (h', ts[i := Awaiting (?v i) ?d])"
        unfolding encodeLog_def fst_conv snd_conv
      proof (intro conjI allI impI)
        fix k v d
        assume k: "k < length ?pbs" and a: "ts[i := Awaiting (?v i) ?d] ! k = Awaiting v d"
        show "v = ?v k"
          using a aw[OF k] True len by (cases "k = i") auto
        show "\<exists>l\<le>length ws. d = getDefaultParamValue (?pbs ! k)
                                (Some (stateAfter this obj init ws l))"
        proof (cases "k = i")
          case True
          then have "d = getDefaultParamValue (?pbs ! k) (Some (stateAfter this obj init ws (length ws)))"
            using a \<open>i < length ?pbs\<close> len cur by simp
          then show ?thesis by blast
        next
          case False
          then show ?thesis using a aw[OF k] by simp
        qed
      next
        fix k assume k: "k < length ?pbs" and n: "ts[i := Awaiting (?v i) ?d] ! k \<noteq> Settled"
        show "k \<notin> set (map fst ws)"
        proof (cases "k = i")
          case True
          then show ?thesis using unsettled[OF k] Pending by simp
        next
          case False
          then show ?thesis using unsettled[OF k] n by simp
        qed
      qed (use o ul len cur just in simp_all)
      then show ?thesis unfolding step by blast
    next
      case (Awaiting v d)
      have v: "v = ?v i"
        and "\<exists>l\<le>length ws. d = getDefaultParamValue (?pbs ! i) (Some (stateAfter this obj init ws l))"
        using aw[OF True Awaiting] by simp_all
      then obtain l where l: "l \<le> length ws"
        and d: "d = getDefaultParamValue (?pbs ! i) (Some (stateAfter this obj init ws l))"
        by blast
      show ?thesis
      proof (cases "v = d")
        case True
        then have step: "encodeStep this m u i s = (h', ts[i := Settled])"
          using Pair \<open>i < length ?pbs\<close> Awaiting len by (simp add: encodeStep_def Let_def)
        have "encodeLog this m u obj init ws (h', ts[i := Settled])"
          unfolding encodeLog_def fst_conv snd_conv
        proof (intro conjI allI impI)
          fix k v' d'
          assume k: "k < length ?pbs" and a: "ts[i := Settled] ! k = Awaiting v' d'"
          have "ts ! k = Awaiting v' d'"
            using a \<open>i < length ?pbs\<close> len by (cases "k = i") simp_all
          then show "v' = ?v k"
            and "\<exists>l\<le>length ws. d' = getDefaultParamValue (?pbs ! k)
                                (Some (stateAfter this obj init ws l))"
            using aw[OF k] by simp_all
        next
          fix k assume k: "k < length ?pbs" and n: "ts[i := Settled] ! k \<noteq> Settled"
          have "ts ! k \<noteq> Settled"
            using n \<open>i < length ?pbs\<close> len by (cases "k = i") simp_all
          then show "k \<notin> set (map fst ws)" using unsettled[OF k] by simp
        qed (use o ul len cur just in simp_all)
        then show ?thesis unfolding step by blast
      next
        case False
        let ?new = "URLSearchParams_set ?cur (urlParamName (?pbs ! i)) v"
        let ?ws = "ws @ [(i, l)]"
        have step: "encodeStep this m u i s =
                      (h'\<lparr>searchParams := (searchParams h')[u := ?new]\<rparr>, ts[i := Settled])"
          using Pair \<open>i < length ?pbs\<close> Awaiting len False by (simp add: encodeStep_def Let_def)
        have fresh: "i \<notin> set (map fst ws)"
          using unsettled[OF \<open>i < length ?pbs\<close>] Awaiting by simp
        have just': "justified this obj init ?ws"
          using just \<open>i < length ?pbs\<close> fresh l False v d by (intro justified_snoc) simp_all
        have new: "?new = stateAfter this obj init ?ws (length ?ws)"
          using v cur stateAfter_write[of this obj init ws "(i, l)"] by simp
        have "encodeLog this m u obj init ?ws
                (h'\<lparr>searchParams := (searchParams h')[u := ?new]\<rparr>, ts[i := Settled])"
          unfolding encodeLog_def fst_conv snd_conv
        proof (intro conjI allI impI)
          fix k v' d'
          assume k: "k < length ?pbs" and a: "ts[i := Settled] ! k = Awaiting v' d'"
          have old: "ts ! k = Awaiting v' d'"
            using a \<open>i < length ?pbs\<close> len by (cases "k = i") simp_all
          show "v' = ?v k" using aw[OF k old] by simp
          obtain l' where "l' \<le> length ws"
            "d' = getDefaultParamValue (?pbs ! k) (Some (stateAfter this obj init ws l'))"
            using aw[OF k old] by blast
          then have "l' \<le> length ?ws \<and>
                     d' = getDefaultParamValue (?pbs ! k) (Some (stateAfter this obj init ?ws l'))"
            by (simp add: stateAfter_snoc)
          then show "\<exists>l\<le>length ?ws. d' = getDefaultParamValue (?pbs ! k)
                                (Some (stateAfter this obj init ?ws l))"
            by blast
        next
          fix k assume k: "k < length ?pbs" and n: "ts[i := Settled] ! k \<noteq> Settled"
          have ki: "k \<noteq> i"
            using n \<open>i < length ?pbs\<close> len by auto
          then have "ts ! k \<noteq> Settled" using n by simp
          then show "k \<notin> set (map fst ?ws)" using unsettled[OF k] ki by simp
        next
          show "searchParams (h'\<lparr>searchParams := (searchParams h')[u := ?new]\<rparr>) ! u =
                  stateAfter this obj init ?ws (length ?ws)"
            using ul new by simp
        qed (use o ul len just' in simp_all)
        then show ?thesis unfolding step by blast
      qed
    qed
  qed
qed

lemma encode_log:
  fixes this :: "'v ModelBinder" and h1 :: "'v heap"
  assumes u: "u < length (searchParams h1)"
  shows "\<exists>ws. encodeLog this m u (objects h1 ! m) (searchParams h1 ! u) ws
           (fold (encodeStep this m u) rs (h1, replicate (length (paramBinders this)) Pending))"
proof (rule fold_invariant[where I = "\<lambda>s. \<exists>ws. encodeLog this m u (objects h1 ! m) (searchParams h1 ! u) ws s"])
  show "\<exists>ws. encodeLog this m u (objects h1 ! m) (searchParams h1 ! u) ws
          (h1, replicate (length (paramBinders this)) Pending)"
  proof
    show "encodeLog this m u (objects h1 ! m) (searchParams h1 ! u) []
            (h1, replicate (length (paramBinders this)) Pending)"
      using u by (simp add: encodeLog_def justified_def stateAfter_def applyWrites_def)
  qed
next
  fix x s
  assume "\<exists>ws. encodeLog this m u (objects h1 ! m) (searchParams h1 ! u) ws s"
  then show "\<exists>ws. encodeLog this m u (objects h1 ! m) (searchParams h1 ! u) ws (encodeStep this m u x s)"
    using encodeStep_log by blast
qed

text \<open>
  C6. Encode called without a parameter set, on a model for which every registered
  binder reads its default value, returns an empty parameter set. In general, the
  output is the supplied parameter set (an empty one when none is supplied) after a
  sequence of writes, each made by a different binder with the value it reads from the
  model, and each made only because that value differs from the default the binder
  computed against the parameter set as it was after some of the earlier writes.
  Nothing else is written, and nothing is removed.
\<close>

theorem default_suppression:
  fixes this :: "'v ModelBinder" and h :: "'v heap"
  assumes "inStore searchParamsArg h"
  shows "\<exists>u h'. getUrlParamsFromModel this resumptions (MObject m) searchParamsArg h = (Inr u, h') \<and>
           ((\<forall>r. searchParamsArg \<noteq> PInstance r) \<and>
            (\<forall>pb\<in>set (paramBinders this).
                getUrlParamValue pb (objects h ! m) = getDefaultParamValue pb (Some [])) \<longrightarrow>
            searchParams h' ! u = []) \<and>
           (\<exists>ws. justified this (objects h ! m) (suppliedParams searchParamsArg h) ws \<and>
                 searchParams h' ! u =
                   applyWrites this (objects h ! m) (map fst ws) (suppliedParams searchParamsArg h))"
proof -
  let ?n = "length (paramBinders this)"
  obtain u h1 where start: "(case searchParamsArg of PInstance r \<Rightarrow> (r, h)
                              | _ \<Rightarrow> newURLSearchParams [] h) = (u, h1)"
    and o: "objects h1 = objects h" and u: "u < length (searchParams h1)"
    and init: "searchParams h1 ! u = suppliedParams searchParamsArg h"
    using encode_start[OF assms] by blast
  let ?run = "fold (encodeStep this m u) resumptions (h1, replicate ?n Pending)"
  have res: "getUrlParamsFromModel this resumptions (MObject m) searchParamsArg h = (Inr u, fst ?run)"
    by (simp add: getUrlParamsFromModel_def start split: prod.splits)
  have all_default: "searchParams (fst ?run) ! u = []"
    if "\<forall>r. searchParamsArg \<noteq> PInstance r"
      and "\<forall>pb\<in>set (paramBinders this).
             getUrlParamValue pb (objects h ! m) = getDefaultParamValue pb (Some [])"
  proof -
    have "suppliedParams searchParamsArg h = []"
      using that(1) by (cases searchParamsArg) (simp_all add: suppliedParams_def)
    then show ?thesis
      using encode_all_default[of this h1 m u resumptions] that(2) o u init by simp
  qed
  obtain ws where "encodeLog this m u (objects h1 ! m) (searchParams h1 ! u) ws ?run"
    using encode_log[OF u, of this m resumptions] by blast
  then have "justified this (objects h ! m) (suppliedParams searchParamsArg h) ws \<and>
             searchParams (fst ?run) ! u =
               applyWrites this (objects h ! m) (map fst ws) (suppliedParams searchParamsArg h)"
    using o init by (simp add: encodeLog_def stateAfter_def)
  then show ?thesis
    using res all_default by blast
qed

theorem default_suppression_witness:
  "inStore PUndefined (storeOf [Map.empty(''A'' \<mapsto> ''a'')] []) \<and>
   getUrlParamValue binderA (Map.empty(''A'' \<mapsto> ''a'')) = getDefaultParamValue binderA (Some []) \<and>
   getUrlParamValue binderB (Map.empty(''A'' \<mapsto> ''a'')) = getDefaultParamValue binderB (Some []) \<and>
   (\<exists>u h'. getUrlParamsFromModel codecAB [1, 0, 0, 1] (MObject 0) PUndefined
              (storeOf [Map.empty(''A'' \<mapsto> ''a'')] []) = (Inr u, h') \<and>
            searchParams h' ! u = []) \<and>
   inStore (PInstance 0) (storeOf [Map.empty(''A'' \<mapsto> ''q'')] [[(''C'', ''z'')]]) \<and>
   (\<exists>u h' ws. getUrlParamsFromModel codecAB [1, 0, 0, 1] (MObject 0) (PInstance 0)
              (storeOf [Map.empty(''A'' \<mapsto> ''q'')] [[(''C'', ''z'')]]) = (Inr u, h') \<and>
            searchParams h' ! u = [(''C'', ''z''), (''A'', ''q'')] \<and>
            justified codecAB (Map.empty(''A'' \<mapsto> ''q'')) [(''C'', ''z'')] ws \<and>
            [(''C'', ''z''), (''A'', ''q'')] =
              applyWrites codecAB (Map.empty(''A'' \<mapsto> ''q'')) (map fst ws) [(''C'', ''z'')])"
proof -
  have run: "getUrlParamsFromModel codecAB [1, 0, 0, 1] (MObject 0) (PInstance 0)
              (storeOf [Map.empty(''A'' \<mapsto> ''q'')] [[(''C'', ''z'')]]) =
             (Inr 0, storeOf [Map.empty(''A'' \<mapsto> ''q'')] [[(''C'', ''z''), (''A'', ''q'')]])"
    by (simp add: getUrlParamsFromModel_def storeOf_def codecAB_def binderA_def binderB_def
          propertyBinder_def encodeStep_def getUrlParamValue_def getDefaultParamValue_def)
  have a: "inStore PUndefined (storeOf [Map.empty(''A'' \<mapsto> ''a'')] []) \<and>
   getUrlParamValue binderA (Map.empty(''A'' \<mapsto> ''a'')) = getDefaultParamValue binderA (Some []) \<and>
   getUrlParamValue binderB (Map.empty(''A'' \<mapsto> ''a'')) = getDefaultParamValue binderB (Some []) \<and>
   (\<exists>u h'. getUrlParamsFromModel codecAB [1, 0, 0, 1] (MObject 0) PUndefined
              (storeOf [Map.empty(''A'' \<mapsto> ''a'')] []) = (Inr u, h') \<and>
            searchParams h' ! u = [])"
    using default_suppression[of PUndefined "storeOf [Map.empty(''A'' \<mapsto> ''a'')] []" codecAB "[1, 0, 0, 1]" 0]
    by (auto simp: inStore_def storeOf_def codecAB_def binderA_def binderB_def propertyBinder_def
        getUrlParamValue_def getDefaultParamValue_def)
  have s: "inStore (PInstance 0) (storeOf [Map.empty(''A'' \<mapsto> ''q'')] [[(''C'', ''z'')]])"
    by (simp add: inStore_def storeOf_def)
  have b: "\<exists>u h' ws. getUrlParamsFromModel codecAB [1, 0, 0, 1] (MObject 0) (PInstance 0)
              (storeOf [Map.empty(''A'' \<mapsto> ''q'')] [[(''C'', ''z'')]]) = (Inr u, h') \<and>
            searchParams h' ! u = [(''C'', ''z''), (''A'', ''q'')] \<and>
            justified codecAB (Map.empty(''A'' \<mapsto> ''q'')) [(''C'', ''z'')] ws \<and>
            [(''C'', ''z''), (''A'', ''q'')] =
              applyWrites codecAB (Map.empty(''A'' \<mapsto> ''q'')) (map fst ws) [(''C'', ''z'')]"
    using default_suppression[OF s, of codecAB "[1, 0, 0, 1]" 0]
    unfolding run by (simp add: suppliedParams_def storeOf_def)
  show ?thesis
    using a s b by blast
qed

section \<open>The fields of the decoded model\<close>

lemma find_distinct:
  "distinct (map f xs) \<Longrightarrow> x \<in> set xs \<Longrightarrow> find (\<lambda>y. f y = f x) xs = Some x"
  by (induction xs) (auto simp: image_iff)

lemma binderFor_own:
  "distinct (map urlParamName (paramBinders this)) \<Longrightarrow> pb \<in> set (paramBinders this) \<Longrightarrow>
   binderFor this (urlParamName pb) = Some pb"
  by (rule find_distinct)

lemma binderFor_SomeD:
  "binderFor this key = Some pb \<Longrightarrow> pb \<in> set (paramBinders this) \<and> urlParamName pb = key"
  by (auto simp: find_Some_iff)

lemma get_None_iff: "URLSearchParams_get ps k = None \<longleftrightarrow> k \<notin> set (URLSearchParams_keys ps)"
  by (simp add: URLSearchParams_get_def URLSearchParams_keys_def map_of_eq_None_iff)

lemma assignDefault_other:
  assumes "ownSlot this pb" and "key \<noteq> urlParamName pb"
  shows "getUrlParamValueFunc pb (assignDefault this ps key obj) = getUrlParamValueFunc pb obj"
proof (cases "binderFor this key")
  case None
  then show ?thesis by (simp add: assignDefault_def)
next
  case (Some pb')
  then have "pb' \<in> set (paramBinders this)" "urlParamName pb' \<noteq> urlParamName pb"
    using binderFor_SomeD[OF Some] assms(2) by auto
  then show ?thesis
    using assms(1) Some unfolding ownSlot_def by (simp add: assignDefault_def)
qed

lemma assignPresent_other:
  assumes "ownSlot this pb" and "key \<noteq> urlParamName pb"
  shows "getUrlParamValueFunc pb (assignPresent this ps key obj) = getUrlParamValueFunc pb obj"
proof (cases "binderFor this key")
  case None
  then show ?thesis by (simp add: assignPresent_def)
next
  case (Some pb')
  then have "pb' \<in> set (paramBinders this)" "urlParamName pb' \<noteq> urlParamName pb"
    using binderFor_SomeD[OF Some] assms(2) by auto
  then show ?thesis
    using assms(1) Some unfolding ownSlot_def
    by (simp add: assignPresent_def split: option.splits)
qed

lemma assignDefault_own:
  assumes "ownSlot this pb" and "binderFor this (urlParamName pb) = Some pb"
  shows "getUrlParamValueFunc pb (assignDefault this ps (urlParamName pb) obj) =
           Some (getDefaultParamValue pb (Some ps))"
  using assms unfolding ownSlot_def by (simp add: assignDefault_def)

lemma assignPresent_own:
  assumes "ownSlot this pb" and "binderFor this (urlParamName pb) = Some pb"
    and "URLSearchParams_get ps (urlParamName pb) = Some v"
    and "\<not> invalidKey this ps (urlParamName pb)"
  shows "getUrlParamValueFunc pb (assignPresent this ps (urlParamName pb) obj) = Some v"
  using assms unfolding ownSlot_def by (simp add: assignPresent_def invalidKey_def)

lemma fold_assignDefault_get:
  assumes "ownSlot this pb" and "binderFor this (urlParamName pb) = Some pb"
  shows "getUrlParamValueFunc pb (fold (assignDefault this ps) ks obj) =
           (if urlParamName pb \<in> set ks then Some (getDefaultParamValue pb (Some ps))
            else getUrlParamValueFunc pb obj)"
proof (induction ks arbitrary: obj)
  case Nil
  then show ?case by simp
next
  case (Cons k ks)
  show ?case
  proof (cases "k = urlParamName pb")
    case True
    then show ?thesis
      using Cons.IH[of "assignDefault this ps k obj"] assignDefault_own[OF assms] by simp
  next
    case False
    then show ?thesis
      using Cons.IH[of "assignDefault this ps k obj"] assignDefault_other[OF assms(1) False]
      by auto
  qed
qed

lemma fold_assignPresent_get:
  assumes "ownSlot this pb" and "binderFor this (urlParamName pb) = Some pb"
    and "\<not> invalidKey this ps (urlParamName pb)"
  shows "getUrlParamValueFunc pb (fold (assignPresent this ps) ks obj) =
           (if urlParamName pb \<in> set ks \<and> URLSearchParams_get ps (urlParamName pb) \<noteq> None
            then URLSearchParams_get ps (urlParamName pb)
            else getUrlParamValueFunc pb obj)"
proof (induction ks arbitrary: obj)
  case Nil
  then show ?case by simp
next
  case (Cons k ks)
  show ?case
  proof (cases "k = urlParamName pb")
    case False
    then show ?thesis
      using Cons.IH[of "assignPresent this ps k obj"] assignPresent_other[OF assms(1) False]
      by auto
  next
    case True
    show ?thesis
    proof (cases "URLSearchParams_get ps (urlParamName pb)")
      case None
      then have "assignPresent this ps k obj = obj"
        using True assms(2) by (simp add: assignPresent_def)
      then show ?thesis
        using Cons.IH[of obj] None by simp
    next
      case (Some v)
      then show ?thesis
        using Cons.IH[of "assignPresent this ps k obj"] True
          assignPresent_own[OF assms(1,2) Some assms(3)] by simp
    qed
  qed
qed


text \<open>
  C7 as stated fails in two places. With both keys absent and defaults that fail the
  binders' own consistency check (10 and 1 for \<open>fieldX < fieldY\<close>), nothing but absence
  has happened and the model is withheld: decode returns the new parameter set, reset
  to the defaults. And a decode call does not always assign: when the caller's model
  cannot be cloned, the call rejects before any default is computed and the store is
  as before.
\<close>

theorem absent_keys_model_withheld:
  "getModelFromUrlParams codecFromTo bothAbsent (PInstance 0) MUndefined (storeWith []) =
     (Inr \<lparr>model = None, newParams = Some 1\<rparr>,
      storeOf [Map.empty(''fieldX'' \<mapsto> ''10'', ''fieldY'' \<mapsto> ''1'')]
        [[], [(''fieldX'', ''10''), (''fieldY'', ''1'')]]) \<and>
   getModelFromUrlParams codecAB bothAbsent (PInstance 0) (MObject 0)
       (storeOf [Map.empty(''onChange'' \<mapsto> ''x => x'')] [[]]) =
     (Inl DataCloneError, storeOf [Map.empty(''onChange'' \<mapsto> ''x => x'')] [[]])"
proof (rule conjI)
  show "getModelFromUrlParams codecFromTo bothAbsent (PInstance 0) MUndefined (storeWith []) =
     (Inr \<lparr>model = None, newParams = Some 1\<rparr>,
      storeOf [Map.empty(''fieldX'' \<mapsto> ''10'', ''fieldY'' \<mapsto> ''1'')]
        [[], [(''fieldX'', ''10''), (''fieldY'', ''1'')]])"
    by (simp add: getModelFromUrlParams_store storeWith_def storeOf_def propertyBinder_def errorFlag_def
  inconsistent_def isModelConsistent_def inOrder_def URLSearchParams_keys_def invalidKey_def
  URLSearchParams_get_def isUrlParamValid_def decodedObject_def clonedModel_def absentKeys_def
  assignPresent_def assignDefault_def strippedParams_def getDefaultParamValue_def
 codecFromTo_def binderFrom_def binderTo_def bothAbsent_def
          orderedXY_def decimal_def resetAll_def URLSearchParams_delete_def)
  show "getModelFromUrlParams codecAB bothAbsent (PInstance 0) (MObject 0)
       (storeOf [Map.empty(''onChange'' \<mapsto> ''x => x'')] [[]]) =
     (Inl DataCloneError, storeOf [Map.empty(''onChange'' \<mapsto> ''x => x'')] [[]])"
    by (simp add: getModelFromUrlParams_def structuredClone_def storeOf_def plainData_def)
qed

text \<open>
  C7, amended. For a decode call on a model argument that can be cloned and a
  registered binder whose name is absent from the input parameter set (names being
  unique): the task of that name calls the binder's setter on the model with the
  binder's default value, computed with the input parameter set as context; the batch
  of absent keys runs that task, so that decode's model copy is the outcome of that
  setter call followed by the setter calls of the tasks that run later; and when the
  accessors of the codec keep to their own slot, the binder reads that default from
  the model copy at the end. Absence sets no error flag: when the model is withheld, a
  present key is invalid or a consistency check failed on the assembled model, which
  the defaults of absent keys can bring about.
\<close>

theorem absent_key_defaulted:
  fixes this :: "'v ModelBinder" and h h0 :: "'v heap"
  assumes "u < length (searchParams h)"
    and "canClone mdl h"
    and "completes (absentOrder sched) (absentKeys this (searchParams h ! u))"
    and "distinct (map urlParamName (paramBinders this))"
    and "pb \<in> set (paramBinders this)"
    and "urlParamName pb \<notin> set (URLSearchParams_keys (searchParams h ! u))"
  shows "absentTask this u0 (MObject m0) (urlParamName pb) h0 =
           Inr (h0\<lparr>objects := (objects h0)
                  [m0 := setValueToModelFunc pb (objects h0 ! m0)
                           (getDefaultParamValue pb (Some (searchParams h0 ! u0)))]\<rparr>) \<and>
         (\<exists>r h' before after.
           getModelFromUrlParams this sched (PInstance u) mdl h = (Inr r, h') \<and>
           inOrder (absentOrder sched) (absentKeys this (searchParams h ! u)) =
             before @ urlParamName pb # after \<and>
           objects h' ! length (objects h) =
             fold (assignPresent this (searchParams h ! u))
               (inOrder (presentOrder sched) (URLSearchParams_keys (searchParams h ! u)))
               (fold (assignDefault this (searchParams h ! u)) after
                  (setValueToModelFunc pb
                     (fold (assignDefault this (searchParams h ! u)) before (clonedModel mdl h))
                     (getDefaultParamValue pb (Some (searchParams h ! u))))) \<and>
           (ownSlot this pb \<longrightarrow>
              getUrlParamValueFunc pb (objects h' ! length (objects h)) =
                Some (getDefaultParamValue pb (Some (searchParams h ! u)))) \<and>
           (model r = None \<longrightarrow>
              (\<exists>key\<in>set (URLSearchParams_keys (searchParams h ! u)).
                  invalidKey this (searchParams h ! u) key) \<or>
              (\<exists>pb'\<in>set (paramBinders this).
                  \<not> isModelConsistent pb' (objects h' ! length (objects h)))))"
proof -
  let ?ps = "searchParams h ! u"
  let ?ak = "inOrder (absentOrder sched) (absentKeys this ?ps)"
  let ?pk = "inOrder (presentOrder sched) (URLSearchParams_keys ?ps)"
  let ?obj = "decodedObject this sched ?ps (clonedModel mdl h)"
  let ?d = "getDefaultParamValue pb (Some ?ps)"
  have own: "binderFor this (urlParamName pb) = Some pb"
    using assms(4,5) by (rule binderFor_own)
  have none: "URLSearchParams_get ?ps (urlParamName pb) = None"
    using assms(6) by (simp add: get_None_iff)
  then have ninv: "\<not> invalidKey this ?ps (urlParamName pb)"
    by (simp add: invalidKey_def own)
  have task: "urlParamName pb \<in> set ?ak"
    using assms(3,5,6) by (simp add: set_inOrder absentKeys_def)
  then obtain before after where split: "?ak = before @ urlParamName pb # after"
    by (auto dest: split_list)
  have call: "absentTask this u0 (MObject m0) (urlParamName pb) h0 =
           Inr (h0\<lparr>objects := (objects h0)
                  [m0 := setValueToModelFunc pb (objects h0 ! m0)
                           (getDefaultParamValue pb (Some (searchParams h0 ! u0)))]\<rparr>)"
    by (simp add: absentTask_def own setToModel_def)
  have assembled: "?obj = fold (assignPresent this ?ps) ?pk
               (fold (assignDefault this ?ps) after
                  (setValueToModelFunc pb (fold (assignDefault this ?ps) before (clonedModel mdl h)) ?d))"
    unfolding decodedObject_def split by (simp add: assignDefault_def own)
  have field: "getUrlParamValueFunc pb ?obj = Some ?d" if slot: "ownSlot this pb"
    using none task
    by (simp add: decodedObject_def fold_assignPresent_get[OF slot own ninv]
          fold_assignDefault_get[OF slot own])
  have withheld: "(\<exists>key\<in>set (URLSearchParams_keys ?ps). invalidKey this ?ps key) \<or>
                  (\<exists>pb'\<in>set (paramBinders this). \<not> isModelConsistent pb' ?obj)"
    if "errorFlag this sched ?ps \<or> inconsistent this ?obj"
    using that errorFlag_present[of this sched ?ps] by (auto simp: inconsistent_def list_ex_iff)
  let ?m = "length (objects h)"
  obtain r h' where run: "getModelFromUrlParams this sched (PInstance u) mdl h = (Inr r, h')"
    and o: "objects h' ! ?m = ?obj"
    and w: "model r = None \<longrightarrow> errorFlag this sched ?ps \<or> inconsistent this ?obj"
    using getModelFromUrlParams_store[OF assms(1,2), of this sched]
    by (cases "errorFlag this sched ?ps"; cases "inconsistent this ?obj") simp_all
  have "getModelFromUrlParams this sched (PInstance u) mdl h = (Inr r, h') \<and>
           ?ak = before @ urlParamName pb # after \<and>
           objects h' ! ?m =
             fold (assignPresent this ?ps) ?pk
               (fold (assignDefault this ?ps) after
                  (setValueToModelFunc pb (fold (assignDefault this ?ps) before (clonedModel mdl h)) ?d)) \<and>
           (ownSlot this pb \<longrightarrow> getUrlParamValueFunc pb (objects h' ! ?m) = Some ?d) \<and>
           (model r = None \<longrightarrow>
              (\<exists>key\<in>set (URLSearchParams_keys ?ps). invalidKey this ?ps key) \<or>
              (\<exists>pb'\<in>set (paramBinders this). \<not> isModelConsistent pb' (objects h' ! ?m)))"
    using run split assembled field withheld w unfolding o by blast
  then have "\<exists>r h' before after.
           getModelFromUrlParams this sched (PInstance u) mdl h = (Inr r, h') \<and>
           ?ak = before @ urlParamName pb # after \<and>
           objects h' ! ?m =
             fold (assignPresent this ?ps) ?pk
               (fold (assignDefault this ?ps) after
                  (setValueToModelFunc pb (fold (assignDefault this ?ps) before (clonedModel mdl h)) ?d)) \<and>
           (ownSlot this pb \<longrightarrow> getUrlParamValueFunc pb (objects h' ! ?m) = Some ?d) \<and>
           (model r = None \<longrightarrow>
              (\<exists>key\<in>set (URLSearchParams_keys ?ps). invalidKey this ?ps key) \<or>
              (\<exists>pb'\<in>set (paramBinders this). \<not> isModelConsistent pb' (objects h' ! ?m)))"
    by (intro exI)
  with call show ?thesis
    by (rule conjI)
qed

theorem absent_key_defaulted_witness:
  "0 < length (searchParams (storeWith [(''A'', ''x'')])) \<and>
   canClone MUndefined (storeWith [(''A'', ''x'')]) \<and>
   completes (absentOrder oneEach) (absentKeys codecAB (searchParams (storeWith [(''A'', ''x'')]) ! 0)) \<and>
   distinct (map urlParamName (paramBinders codecAB)) \<and>
   binderB \<in> set (paramBinders codecAB) \<and>
   urlParamName binderB \<notin> set (URLSearchParams_keys (searchParams (storeWith [(''A'', ''x'')]) ! 0)) \<and>
   ownSlot codecAB binderB \<and>
   (\<exists>r h'. getModelFromUrlParams codecAB oneEach (PInstance 0) MUndefined
              (storeWith [(''A'', ''x'')]) = (Inr r, h') \<and>
            getUrlParamValueFunc binderB (objects h' ! 0) = Some ''5'')"
proof -
  have own: "ownSlot codecAB binderB"
    by (simp add: ownSlot_def codecAB_def binderA_def binderB_def propertyBinder_def)
  show ?thesis
    using own absent_key_defaulted[of 0 "storeWith [(''A'', ''x'')]" MUndefined oneEach codecAB binderB
            0 0 "storeWith [(''A'', ''x'')]"]
    by (auto simp: storeWith_def completes_def absentKeys_def URLSearchParams_keys_def oneEach_def
          codecAB_def binderA_def binderB_def propertyBinder_def getDefaultParamValue_def)
qed

section \<open>Keys without a binder\<close>

lemma fold_filter_ignored:
  assumes "\<And>s. f key s = s"
  shows "fold f (filter (\<lambda>k. k \<noteq> key) ks) s = fold f ks s"
  by (induction ks arbitrary: s) (simp_all add: assms)

lemma inOrder_filter:
  "inOrder (filter (\<lambda>i. xs ! i \<noteq> key) order) xs = filter (\<lambda>k. k \<noteq> key) (inOrder order xs)"
  by (induction order) (simp_all add: inOrder_def)

lemma unregistered_binderFor:
  "key \<notin> set (map urlParamName (paramBinders this)) \<Longrightarrow> binderFor this key = None"
  by (auto simp: find_None_iff)

lemma positions_exist:
  "mset ks = mset xs \<Longrightarrow>
   \<exists>order. mset order = mset [0..<length xs] \<and> map (\<lambda>i. xs ! i) order = ks"
proof (induction xs arbitrary: ks rule: rev_induct)
  case Nil
  then show ?case by simp
next
  case (snoc x xs)
  have "x \<in> set ks"
    using snoc.prems by (metis in_set_conv_decomp mset_eq_setD)
  then obtain as bs where ks: "ks = as @ x # bs"
    by (meson split_list)
  then have "mset (as @ bs) = mset xs"
    using snoc.prems by simp
  then obtain order0 where o: "mset order0 = mset [0..<length xs]"
    and m: "map (\<lambda>i. xs ! i) order0 = as @ bs"
    using snoc.IH by blast
  have range: "set order0 = {0..<length xs}"
    using o by (metis mset_eq_setD set_upt)
  let ?order = "take (length as) order0 @ length xs # drop (length as) order0"
  have "map (\<lambda>i. (xs @ [x]) ! i) order0 = map (\<lambda>i. xs ! i) order0"
    by (rule map_cong) (use range in \<open>auto simp: nth_append\<close>)
  then have m1: "map (\<lambda>i. (xs @ [x]) ! i) order0 = as @ bs"
    using m by simp
  have "map (\<lambda>i. (xs @ [x]) ! i) ?order =
          take (length as) (as @ bs) @ x # drop (length as) (as @ bs)"
    by (simp add: m1 flip: take_map drop_map)
  then have a: "map (\<lambda>i. (xs @ [x]) ! i) ?order = ks"
    using ks by simp
  have "mset (take (length as) order0) + mset (drop (length as) order0) = mset order0"
    by (metis append_take_drop_id mset_append)
  then have b: "mset ?order = mset [0..<length (xs @ [x])]"
    using o by simp
  show ?case
    using a b by blast
qed

lemma order_exists:
  assumes "mset ks = mset xs"
  shows "\<exists>order. completes order xs \<and> inOrder order xs = ks"
proof -
  obtain order where o: "mset order = mset [0..<length xs]"
    and m: "map (\<lambda>i. xs ! i) order = ks"
    using positions_exist[OF assms] by blast
  have "set order = {0..<length xs}"
    using o by (metis mset_eq_setD set_upt)
  then have "filter (\<lambda>i. i < length xs) order = order"
    by (auto simp: filter_id_conv)
  then have "inOrder order xs = ks"
    using m by (simp add: inOrder_def)
  moreover have "sort order = [0..<length xs]"
    using o by (intro properties_for_sort) simp_all
  ultimately show ?thesis
    unfolding completes_def by blast
qed

lemma keys_delete:
  "URLSearchParams_keys (URLSearchParams_delete ps key) =
     filter (\<lambda>k. k \<noteq> key) (URLSearchParams_keys ps)"
  by (simp add: URLSearchParams_keys_def URLSearchParams_delete_def filter_map comp_def)

lemma delete_delete:
  "URLSearchParams_delete (URLSearchParams_delete ps k) key =
     URLSearchParams_delete (URLSearchParams_delete ps key) k"
  by (auto simp: URLSearchParams_delete_def intro: filter_cong)

lemma delete_set:
  "k \<noteq> key \<Longrightarrow>
   URLSearchParams_delete (URLSearchParams_set ps k v) key =
     URLSearchParams_set (URLSearchParams_delete ps key) k v"
proof (induction ps)
  case Nil
  then show ?case by (simp add: URLSearchParams_delete_def)
next
  case (Cons p ps)
  show ?case
  proof (cases "fst p = k")
    case True
    then have "URLSearchParams_delete (URLSearchParams_set (p # ps) k v) key =
                 (k, v) # URLSearchParams_delete (URLSearchParams_delete ps k) key"
      using Cons.prems by (simp add: URLSearchParams_delete_def)
    moreover have "URLSearchParams_set (URLSearchParams_delete (p # ps) key) k v =
                     (k, v) # URLSearchParams_delete (URLSearchParams_delete ps key) k"
      using True Cons.prems by (simp add: URLSearchParams_delete_def)
    ultimately show ?thesis
      by (simp add: delete_delete)
  next
    case False
    then show ?thesis
      using Cons by (simp add: URLSearchParams_delete_def)
  qed
qed

text \<open>
  Decoding a parameter set and decoding it without a key that has no binder, when
  the binders' default suppliers and validators answer alike on the two sets.
\<close>

lemma decode_without_key:
  fixes this :: "'v ModelBinder" and h :: "'v heap"
  assumes unreg: "key \<notin> set (map urlParamName (paramBinders this))"
    and u: "u < length (searchParams h)" and u': "u' < length (searchParams h)"
    and del: "searchParams h ! u' = URLSearchParams_delete (searchParams h ! u) key"
    and dflt: "\<And>pb. pb \<in> set (paramBinders this) \<Longrightarrow>
                 getDefaultParamValue pb (Some (searchParams h ! u')) =
                 getDefaultParamValue pb (Some (searchParams h ! u))"
    and valid: "\<And>pb v. pb \<in> set (paramBinders this) \<Longrightarrow>
                 isUrlParamValid pb v (Some (searchParams h ! u')) =
                 isUrlParamValid pb v (Some (searchParams h ! u))"
    and same: "sameRunWithout key (searchParams h ! u) sched sched'"
  shows "fst (getModelFromUrlParams this sched' (PInstance u') mdl h) =
           fst (getModelFromUrlParams this sched (PInstance u) mdl h) \<and>
         objects (snd (getModelFromUrlParams this sched' (PInstance u') mdl h)) =
           objects (snd (getModelFromUrlParams this sched (PInstance u) mdl h)) \<and>
         (\<forall>r np. fst (getModelFromUrlParams this sched (PInstance u) mdl h) = Inr r \<and>
                  newParams r = Some np \<longrightarrow>
            searchParams (snd (getModelFromUrlParams this sched' (PInstance u') mdl h)) ! np =
              URLSearchParams_delete
                (searchParams (snd (getModelFromUrlParams this sched (PInstance u) mdl h)) ! np) key)"
proof (cases "canClone mdl h")
  case False
  then show ?thesis
    by (simp add: getModelFromUrlParams_not_cloned)
next
  case True
  let ?ps = "searchParams h ! u" and ?ps' = "searchParams h ! u'"
  let ?pk = "inOrder (presentOrder sched) (URLSearchParams_keys ?ps)"
  let ?pk' = "inOrder (presentOrder sched') (URLSearchParams_keys ?ps')"
  have pk': "?pk' = filter (\<lambda>k. k \<noteq> key) ?pk"
    and ao: "absentOrder sched' = absentOrder sched"
    and ro: "resetOrder sched' = resetOrder sched"
    using same unfolding sameRunWithout_def del by simp_all
  have none: "binderFor this key = None"
    using unreg by (rule unregistered_binderFor)
  have other: "pb \<in> set (paramBinders this) \<and> k \<noteq> key" if "binderFor this k = Some pb" for k pb
    using binderFor_SomeD[OF that] unreg by auto
  have get: "URLSearchParams_get ?ps' k = URLSearchParams_get ?ps k" if "k \<noteq> key" for k
    using that by (simp add: del get_delete)
  have ad: "assignDefault this ?ps' = assignDefault this ?ps"
  proof (rule ext, rule ext)
    fix k obj
    show "assignDefault this ?ps' k obj = assignDefault this ?ps k obj"
      using other[of k] dflt by (cases "binderFor this k") (simp_all add: assignDefault_def)
  qed
  have ap: "assignPresent this ?ps' = assignPresent this ?ps"
  proof (rule ext, rule ext)
    fix k obj
    show "assignPresent this ?ps' k obj = assignPresent this ?ps k obj"
    proof (cases "binderFor this k")
      case None
      then show ?thesis by (simp add: assignPresent_def)
    next
      case (Some pb)
      then show ?thesis
        using other[OF Some] get[of k] valid[of pb]
        by (simp add: assignPresent_def split: option.splits)
    qed
  qed
  have inv: "invalidKey this ?ps' k = invalidKey this ?ps k" for k
  proof (cases "binderFor this k")
    case None
    then show ?thesis by (simp add: invalidKey_def)
  next
    case (Some pb)
    then show ?thesis
      using other[OF Some] get[of k] valid[of pb]
      by (simp add: invalidKey_def split: option.splits)
  qed
  have ninv: "\<not> invalidKey this ?ps key"
    by (simp add: invalidKey_def none)
  have ak: "absentKeys this ?ps' = absentKeys this ?ps"
    unfolding absentKeys_def del keys_delete by (rule filter_cong) (use unreg in auto)
  have ignore: "assignPresent this ?ps key obj = obj" for obj
    by (simp add: assignPresent_def none)
  have obj: "decodedObject this sched' ?ps' obj0 = decodedObject this sched ?ps obj0" for obj0
    unfolding decodedObject_def pk' ao ak ad ap
    by (simp add: fold_filter_ignored[of "assignPresent this ?ps" key, OF ignore])
  have err: "errorFlag this sched' ?ps' = errorFlag this sched ?ps"
    unfolding errorFlag_def pk' using ninv by (auto simp: list_ex_iff inv)
  have strip: "strippedParams this sched' ?ps' =
                 URLSearchParams_delete (strippedParams this sched ?ps) key"
  proof -
    have "strippedParams this sched' ?ps' =
            filter (\<lambda>p. \<not> (fst p \<in> set (filter (\<lambda>k. k \<noteq> key) ?pk) \<and> invalidKey this ?ps (fst p)))
              (URLSearchParams_delete ?ps key)"
      unfolding strippedParams_def pk' inv by (simp add: del)
    also have "\<dots> = URLSearchParams_delete (strippedParams this sched ?ps) key"
      unfolding strippedParams_def URLSearchParams_delete_def
      by (auto simp: filter_filter intro: filter_cong)
    finally show ?thesis .
  qed
  have reset: "resetAll pbs ?ps' (URLSearchParams_delete np key) =
                 URLSearchParams_delete (resetAll pbs ?ps np) key"
    if "set pbs \<subseteq> set (paramBinders this)" for pbs np
    using that
  proof (induction pbs arbitrary: np)
    case Nil
    then show ?case by (simp add: resetAll_def)
  next
    case (Cons pb pbs)
    have pb: "pb \<in> set (paramBinders this)" and k: "urlParamName pb \<noteq> key"
      using Cons.prems unreg by auto
    have "resetAll (pb # pbs) ?ps' (URLSearchParams_delete np key) =
            resetAll pbs ?ps' (URLSearchParams_delete
              (URLSearchParams_set np (urlParamName pb) (getDefaultParamValue pb (Some ?ps))) key)"
      by (simp add: resetAll_def dflt[OF pb] delete_set[OF k])
    also have "\<dots> = URLSearchParams_delete (resetAll (pb # pbs) ?ps np) key"
      using Cons.IH[of "URLSearchParams_set np (urlParamName pb) (getDefaultParamValue pb (Some ?ps))"]
        Cons.prems by (simp add: resetAll_def)
    finally show ?case .
  qed
  have reset': "resetAll (inOrder (resetOrder sched) (paramBinders this)) ?ps'
                   (URLSearchParams_delete (strippedParams this sched ?ps) key) =
                 URLSearchParams_delete
                   (resetAll (inOrder (resetOrder sched) (paramBinders this)) ?ps
                      (strippedParams this sched ?ps)) key"
    by (rule reset) (rule inOrder_subset)
  show ?thesis
    unfolding getModelFromUrlParams_store[OF u True] getModelFromUrlParams_store[OF u' True]
      obj err strip ro reset'
    by (simp add: nth_append)
qed

text \<open>
  C8 as stated fails in its last part. The validator of a registered binder is handed
  the whole parameter set, so it can look at a key that has no binder: here the page
  number is accepted only when a size is given, no binder is registered for the size,
  and its presence decides between the two result variants.
\<close>

theorem unregistered_key_changes_result:
  "''size'' \<notin> set (map urlParamName (paramBinders codecPage)) \<and>
   fst (getModelFromUrlParams codecPage
          \<lparr>absentOrder = [], presentOrder = [0, 1], resetOrder = [0]\<rparr> (PInstance 0) MUndefined
          (storeWith [(''page'', ''2''), (''size'', ''20'')])) =
     Inr \<lparr>model = Some 0, newParams = None\<rparr> \<and>
   fst (getModelFromUrlParams codecPage
          \<lparr>absentOrder = [], presentOrder = [0], resetOrder = [0]\<rparr> (PInstance 0) MUndefined
          (storeWith [(''page'', ''2'')])) =
     Inr \<lparr>model = None, newParams = Some 1\<rparr>"
  by (simp add: getModelFromUrlParams_store storeWith_def codecPage_def binderPage_def
        propertyBinder_def errorFlag_def inconsistent_def isModelConsistent_def
        inOrder_def URLSearchParams_keys_def invalidKey_def
        URLSearchParams_get_def isUrlParamValid_def)

text \<open>
  C8, amended. A key of the input parameter set that has no registered binder is
  ignored by decode itself: its task runs no validation, writes no model field and no
  parameter, and does not set the error flag, and the key is never an invalid key.
  When the default suppliers and the validators of the registered binders answer alike
  on the parameter set with and without the key, decoding the set without the key
  gives the same outcome as decoding it with the key: the same result (the same
  variant, or the same error), the same model objects, and a new parameter set that
  is the other one without the key. This holds of any two runs that agree but for the
  tasks of that key, and every run that completes on one of the two sets has such a
  counterpart on the other.
\<close>

theorem unregistered_key_ignored:
  fixes this :: "'v ModelBinder" and h :: "'v heap"
  assumes "key \<notin> set (map urlParamName (paramBinders this))"
    and "u < length (searchParams h)"
    and "u' < length (searchParams h)"
    and "searchParams h ! u' = URLSearchParams_delete (searchParams h ! u) key"
    and "\<forall>pb\<in>set (paramBinders this).
           getDefaultParamValue pb (Some (searchParams h ! u')) =
             getDefaultParamValue pb (Some (searchParams h ! u)) \<and>
           (\<forall>v. isUrlParamValid pb v (Some (searchParams h ! u')) =
                 isUrlParamValid pb v (Some (searchParams h ! u)))"
  shows "presentTask this u (MObject m) n key s = s \<and>
         \<not> invalidKey this (searchParams h ! u) key \<and>
         (\<forall>sched sched'. sameRunWithout key (searchParams h ! u) sched sched' \<longrightarrow>
            fst (getModelFromUrlParams this sched' (PInstance u') mdl h) =
              fst (getModelFromUrlParams this sched (PInstance u) mdl h) \<and>
            objects (snd (getModelFromUrlParams this sched' (PInstance u') mdl h)) =
              objects (snd (getModelFromUrlParams this sched (PInstance u) mdl h)) \<and>
            (\<forall>r np. fst (getModelFromUrlParams this sched (PInstance u) mdl h) = Inr r \<and>
                     newParams r = Some np \<longrightarrow>
               searchParams (snd (getModelFromUrlParams this sched' (PInstance u') mdl h)) ! np =
                 URLSearchParams_delete
                   (searchParams (snd (getModelFromUrlParams this sched (PInstance u) mdl h)) ! np) key)) \<and>
         (\<forall>sched. completes (presentOrder sched) (URLSearchParams_keys (searchParams h ! u)) \<longrightarrow>
            (\<exists>sched'. completes (presentOrder sched') (URLSearchParams_keys (searchParams h ! u')) \<and>
                       sameRunWithout key (searchParams h ! u) sched sched')) \<and>
         (\<forall>sched'. completes (presentOrder sched') (URLSearchParams_keys (searchParams h ! u')) \<longrightarrow>
            (\<exists>sched. completes (presentOrder sched) (URLSearchParams_keys (searchParams h ! u)) \<and>
                      sameRunWithout key (searchParams h ! u) sched sched'))"
proof (intro conjI allI impI)
  let ?ps = "searchParams h ! u" and ?ps' = "searchParams h ! u'"
  let ?keys = "URLSearchParams_keys ?ps" and ?keys' = "URLSearchParams_keys ?ps'"
  have none: "binderFor this key = None"
    using assms(1) by (rule unregistered_binderFor)
  have keys': "?keys' = filter (\<lambda>k. k \<noteq> key) ?keys"
    by (simp add: assms(4) keys_delete)
  show "presentTask this u (MObject m) n key s = s"
    by (cases s) (simp add: presentTask_def none)
  show "\<not> invalidKey this ?ps key"
    by (simp add: invalidKey_def none)
  {
    fix sched sched' :: schedule
    assume same: "sameRunWithout key ?ps sched sched'"
    note run = decode_without_key[OF assms(1-4) _ _ same, of mdl]
    show "fst (getModelFromUrlParams this sched' (PInstance u') mdl h) =
            fst (getModelFromUrlParams this sched (PInstance u) mdl h)"
      using run assms(5) by blast
    show "objects (snd (getModelFromUrlParams this sched' (PInstance u') mdl h)) =
            objects (snd (getModelFromUrlParams this sched (PInstance u) mdl h))"
      using run assms(5) by blast
    fix r np
    assume "fst (getModelFromUrlParams this sched (PInstance u) mdl h) = Inr r \<and> newParams r = Some np"
    then show "searchParams (snd (getModelFromUrlParams this sched' (PInstance u') mdl h)) ! np =
                 URLSearchParams_delete
                   (searchParams (snd (getModelFromUrlParams this sched (PInstance u) mdl h)) ! np) key"
      using run assms(5) by blast
  }
  {
    fix sched :: schedule
    assume "completes (presentOrder sched) ?keys"
    then have "mset (filter (\<lambda>k. k \<noteq> key) (inOrder (presentOrder sched) ?keys)) = mset ?keys'"
      by (simp add: keys' mset_inOrder)
    then obtain order where o: "completes order ?keys'"
      "inOrder order ?keys' = filter (\<lambda>k. k \<noteq> key) (inOrder (presentOrder sched) ?keys)"
      using order_exists by blast
    have "completes (presentOrder (sched\<lparr>presentOrder := order\<rparr>)) ?keys' \<and>
          sameRunWithout key ?ps sched (sched\<lparr>presentOrder := order\<rparr>)"
      using o by (simp add: sameRunWithout_def assms(4)[symmetric])
    then show "\<exists>sched'. completes (presentOrder sched') ?keys' \<and> sameRunWithout key ?ps sched sched'"
      by blast
  }
  {
    fix sched' :: schedule
    assume c: "completes (presentOrder sched') ?keys'"
    let ?ks = "inOrder (presentOrder sched') ?keys' @ filter (\<lambda>k. k = key) ?keys"
    have "mset ?ks = mset (filter (\<lambda>k. k \<noteq> key) ?keys) + mset (filter (\<lambda>k. k = key) ?keys)"
      using mset_inOrder[OF c] by (simp add: keys')
    then have "mset ?ks = mset ?keys"
      by (simp add: union_commute)
    then obtain order where o: "completes order ?keys" "inOrder order ?keys = ?ks"
      using order_exists by blast
    have "set (inOrder (presentOrder sched') ?keys') \<subseteq> set ?keys'"
      by (rule inOrder_subset)
    then have "filter (\<lambda>k. k \<noteq> key) (inOrder (presentOrder sched') ?keys') =
               inOrder (presentOrder sched') ?keys'"
      unfolding keys' by (auto simp: filter_id_conv)
    then have "filter (\<lambda>k. k \<noteq> key) ?ks = inOrder (presentOrder sched') ?keys'"
      by simp
    then have "completes (presentOrder (sched'\<lparr>presentOrder := order\<rparr>)) ?keys \<and>
          sameRunWithout key ?ps (sched'\<lparr>presentOrder := order\<rparr>) sched'"
      using o by (simp add: sameRunWithout_def assms(4)[symmetric])
    then show "\<exists>sched. completes (presentOrder sched) ?keys \<and> sameRunWithout key ?ps sched sched'"
      by blast
  }
qed

theorem unregistered_key_ignored_witness:
  "''size'' \<notin> set (map urlParamName (paramBinders codecAB)) \<and>
   0 < length (searchParams (storeOf [] [[(''A'', ''x''), (''size'', ''20'')], [(''A'', ''x'')]])) \<and>
   1 < length (searchParams (storeOf [] [[(''A'', ''x''), (''size'', ''20'')], [(''A'', ''x'')]])) \<and>
   searchParams (storeOf [] [[(''A'', ''x''), (''size'', ''20'')], [(''A'', ''x'')]]) ! 1 =
     URLSearchParams_delete
       (searchParams (storeOf [] [[(''A'', ''x''), (''size'', ''20'')], [(''A'', ''x'')]]) ! 0) ''size'' \<and>
   sameRunWithout ''size'' [(''A'', ''x''), (''size'', ''20'')] oneAbsent oneEach \<and>
   completes (presentOrder oneAbsent) (URLSearchParams_keys [(''A'', ''x''), (''size'', ''20'')]) \<and>
   completes (presentOrder oneEach) (URLSearchParams_keys [(''A'', ''x'')]) \<and>
   fst (getModelFromUrlParams codecAB oneEach (PInstance 1) MUndefined
          (storeOf [] [[(''A'', ''x''), (''size'', ''20'')], [(''A'', ''x'')]])) =
     fst (getModelFromUrlParams codecAB oneAbsent (PInstance 0) MUndefined
            (storeOf [] [[(''A'', ''x''), (''size'', ''20'')], [(''A'', ''x'')]]))"
proof -
  have same: "sameRunWithout ''size'' [(''A'', ''x''), (''size'', ''20'')] oneAbsent oneEach"
    by (simp add: sameRunWithout_def oneAbsent_def oneEach_def inOrder_def
          URLSearchParams_keys_def URLSearchParams_delete_def)
  show ?thesis
    using same unregistered_key_ignored[of "''size''" codecAB 0
            "storeOf [] [[(''A'', ''x''), (''size'', ''20'')], [(''A'', ''x'')]]" 1 0 0
            "(storeOf [] [[(''A'', ''x''), (''size'', ''20'')], [(''A'', ''x'')]], False)" MUndefined]
    by (simp add: codecAB_def binderA_def binderB_def propertyBinder_def storeOf_def
          oneAbsent_def oneEach_def URLSearchParams_keys_def URLSearchParams_delete_def
          completes_def getDefaultParamValue_def isUrlParamValid_def)
qed

section \<open>Decode, encode, decode\<close>




















subsection \<open>Each law is needed\<close>

text \<open>
  The codec of page and size, on which the round trip fails above, keeps every law but
  the one on validators. The three codecs below each break one other law and keep
  the rest, and the round trip fails on each: with a getter that reads back more than
  was written, the values read differ after the round trip; with a default that
  depends on the parameter set, encode suppresses B against the set it sees and the
  second decode defaults B against another; with a consistency check on a property
  that only the caller's first model has, the second decode withholds the model.
\<close>

lemma codecEcho_laws:
  "distinct (map urlParamName (paramBinders codecEcho)) \<and> contextFree codecEcho \<and>
   consistencyByFields codecEcho \<and> \<not> ownSlot codecEcho binderEcho"
proof -
  have "getUrlParamValueFunc binderEcho (setValueToModelFunc binderEcho Map.empty ''x'') \<noteq> Some ''x''"
    by (simp add: binderEcho_def propertyBinder_def)
  then have "\<not> ownSlot codecEcho binderEcho"
    unfolding ownSlot_def by blast
  moreover have "contextFree codecEcho"
    by (simp add: contextFree_def codecEcho_def binderEcho_def propertyBinder_def
          getDefaultParamValue_def isUrlParamValid_def)
  moreover have "consistencyByFields codecEcho"
    by (simp add: consistencyByFields_def codecEcho_def binderEcho_def propertyBinder_def
          isModelConsistent_def)
  moreover have "distinct (map urlParamName (paramBinders codecEcho))"
    by (simp add: codecEcho_def)
  ultimately show ?thesis by blast
qed

lemma codecDependent_laws:
  "distinct (map urlParamName (paramBinders codecDependent)) \<and>
   ownSlot codecDependent binderDependent \<and> ownSlot codecDependent binderC \<and>
   consistencyByFields codecDependent \<and>
   isUrlParamValid binderDependent v c = isUrlParamValid binderDependent v None \<and>
   isUrlParamValid binderC v c = isUrlParamValid binderC v None \<and>
   \<not> contextFree codecDependent"
proof -
  have "getDefaultParamValue binderDependent (Some [(''C'', ''z'')]) \<noteq>
        getDefaultParamValue binderDependent None"
    by (simp add: binderDependent_def propertyBinder_def getDefaultParamValue_def
          URLSearchParams_keys_def)
  moreover have "binderDependent \<in> set (paramBinders codecDependent)"
    by (simp add: codecDependent_def)
  ultimately have "\<not> contextFree codecDependent"
    unfolding contextFree_def by blast
  moreover have "ownSlot codecDependent binderDependent" "ownSlot codecDependent binderC"
    by (simp_all add: ownSlot_def codecDependent_def binderDependent_def binderC_def propertyBinder_def)
  moreover have "consistencyByFields codecDependent"
    by (simp add: consistencyByFields_def codecDependent_def binderDependent_def binderC_def
          propertyBinder_def isModelConsistent_def)
  moreover have "distinct (map urlParamName (paramBinders codecDependent))"
    by (simp add: codecDependent_def binderDependent_def binderC_def propertyBinder_def)
  moreover have "isUrlParamValid binderDependent v c = isUrlParamValid binderDependent v None"
    "isUrlParamValid binderC v c = isUrlParamValid binderC v None"
    by (simp_all add: isUrlParamValid_def binderDependent_def binderC_def propertyBinder_def)
  ultimately show ?thesis by blast
qed

lemma codecChecked_laws:
  "distinct (map urlParamName (paramBinders codecChecked)) \<and>
   ownSlot codecChecked binderChecked \<and> contextFree codecChecked \<and>
   \<not> consistencyByFields codecChecked"
proof -
  have b: "binderChecked \<in> set (paramBinders codecChecked)"
    by (simp add: codecChecked_def)
  have same: "\<forall>pb'\<in>set (paramBinders codecChecked).
          getUrlParamValueFunc pb' Map.empty = getUrlParamValueFunc pb' (Map.empty(''ok'' \<mapsto> ''yes''))"
    by (simp add: codecChecked_def binderChecked_def propertyBinder_def)
  have differ: "isModelConsistent binderChecked Map.empty \<noteq>
        isModelConsistent binderChecked (Map.empty(''ok'' \<mapsto> ''yes''))"
    by (simp add: isModelConsistent_def binderChecked_def propertyBinder_def)
  have "\<not> consistencyByFields codecChecked"
    unfolding consistencyByFields_def using b same differ by blast
  moreover have "ownSlot codecChecked binderChecked"
    by (simp add: ownSlot_def codecChecked_def binderChecked_def propertyBinder_def)
  moreover have "contextFree codecChecked"
    by (simp add: contextFree_def codecChecked_def binderChecked_def propertyBinder_def
          getDefaultParamValue_def isUrlParamValid_def)
  moreover have "distinct (map urlParamName (paramBinders codecChecked))"
    by (simp add: codecChecked_def)
  ultimately show ?thesis by blast
qed

lemma codecSizePage_laws:
  "distinct (map urlParamName (paramBinders codecSizePage)) \<and>
   ownSlot codecSizePage binderSize \<and> ownSlot codecSizePage binderPage \<and>
   consistencyByFields codecSizePage \<and>
   getDefaultParamValue binderSize c = getDefaultParamValue binderSize None \<and>
   getDefaultParamValue binderPage c = getDefaultParamValue binderPage None \<and>
   \<not> contextFree codecSizePage"
proof -
  have "isUrlParamValid binderPage ''2'' (Some [(''size'', ''10'')]) \<noteq>
        isUrlParamValid binderPage ''2'' None"
    by (simp add: binderPage_def propertyBinder_def isUrlParamValid_def URLSearchParams_keys_def)
  moreover have "binderPage \<in> set (paramBinders codecSizePage)"
    by (simp add: codecSizePage_def)
  ultimately have "\<not> contextFree codecSizePage"
    unfolding contextFree_def by blast
  moreover have "ownSlot codecSizePage binderSize" "ownSlot codecSizePage binderPage"
    by (simp_all add: ownSlot_def codecSizePage_def binderSize_def binderPage_def propertyBinder_def)
  moreover have "consistencyByFields codecSizePage"
    by (simp add: consistencyByFields_def codecSizePage_def binderSize_def binderPage_def
          propertyBinder_def isModelConsistent_def)
  moreover have "distinct (map urlParamName (paramBinders codecSizePage))"
    by (simp add: codecSizePage_def binderSize_def binderPage_def propertyBinder_def)
  moreover have "getDefaultParamValue binderSize c = getDefaultParamValue binderSize None"
    "getDefaultParamValue binderPage c = getDefaultParamValue binderPage None"
    by (simp_all add: getDefaultParamValue_def binderSize_def binderPage_def propertyBinder_def)
  ultimately show ?thesis by blast
qed

lemmas decode_eval =
  getModelFromUrlParams_store storeWith_def storeOf_def propertyBinder_def errorFlag_def
  inconsistent_def isModelConsistent_def inOrder_def URLSearchParams_keys_def invalidKey_def
  URLSearchParams_get_def isUrlParamValid_def decodedObject_def clonedModel_def absentKeys_def
  assignPresent_def assignDefault_def strippedParams_def getDefaultParamValue_def

lemmas encode_eval =
  getUrlParamsFromModel_def newURLSearchParams_def propertyBinder_def encodeStep_def
  getUrlParamValue_def getDefaultParamValue_def URLSearchParams_keys_def

lemma echoDecoded_eq:
  "echoDecoded = storeOf [Map.empty(''A'' \<mapsto> ''x'')]
      [[(''A'', ''x'')], [(''A'', ''x'')]]"
  by (simp add: plainData_def echoDecoded_def codecEcho_def binderEcho_def onePresent_def decode_eval)

lemma echoEncoded_eq:
  "echoEncoded = storeOf [Map.empty(''A'' \<mapsto> ''x'')]
      [[(''A'', ''x'')], [(''A'', ''x'')], [(''A'', ''x!'')]]"
  unfolding echoEncoded_def echoDecoded_eq
  by (simp add: storeOf_def plainData_def codecEcho_def binderEcho_def encode_eval)

lemma echoAgain_eq:
  "echoAgain = storeOf [Map.empty(''A'' \<mapsto> ''x''), Map.empty(''A'' \<mapsto> ''x!'')]
      [[(''A'', ''x'')], [(''A'', ''x'')], [(''A'', ''x!'')], [(''A'', ''x!'')]]"
  unfolding echoAgain_def echoEncoded_eq
  by (simp add: plainData_def codecEcho_def binderEcho_def onePresent_def decode_eval)

lemma round_trip_needs_own_slot:
  "fst (getModelFromUrlParams codecEcho onePresent (PInstance 0) MUndefined
          (storeWith [(''A'', ''x'')])) = Inr \<lparr>model = Some 0, newParams = None\<rparr> \<and>
   fst (getUrlParamsFromModel codecEcho [0, 0] (MObject 0) PUndefined echoDecoded) = Inr 2 \<and>
   fst (getModelFromUrlParams codecEcho onePresent (PInstance 2) MUndefined echoEncoded) =
     Inr \<lparr>model = Some 1, newParams = None\<rparr> \<and>
   getUrlParamValue binderEcho (objects echoDecoded ! 0) = ''x!'' \<and>
   getUrlParamValue binderEcho (objects echoAgain ! 1) = ''x!!''"
proof -
  have d1: "fst (getModelFromUrlParams codecEcho onePresent (PInstance 0) MUndefined
          (storeWith [(''A'', ''x'')])) = Inr \<lparr>model = Some 0, newParams = None\<rparr>"
    by (simp add: plainData_def codecEcho_def binderEcho_def onePresent_def decode_eval)
  have e: "fst (getUrlParamsFromModel codecEcho [0, 0] (MObject 0) PUndefined echoDecoded) = Inr 2"
    unfolding echoDecoded_eq by (simp add: storeOf_def plainData_def codecEcho_def binderEcho_def encode_eval)
  have d2: "fst (getModelFromUrlParams codecEcho onePresent (PInstance 2) MUndefined echoEncoded) =
     Inr \<lparr>model = Some 1, newParams = None\<rparr>"
    unfolding echoEncoded_eq by (simp add: plainData_def codecEcho_def binderEcho_def onePresent_def decode_eval)
  have r1: "getUrlParamValue binderEcho (objects echoDecoded ! 0) = ''x!''"
    by (simp add: storeOf_def plainData_def echoDecoded_eq binderEcho_def propertyBinder_def getUrlParamValue_def)
  have r2: "getUrlParamValue binderEcho (objects echoAgain ! 1) = ''x!!''"
    by (simp add: storeOf_def plainData_def echoAgain_eq binderEcho_def propertyBinder_def getUrlParamValue_def)
  show ?thesis using d1 e d2 r1 r2 by blast
qed

lemma dependentDecoded_eq:
  "dependentDecoded = storeOf [Map.empty(''B'' \<mapsto> ''2'', ''C'' \<mapsto> ''z'')]
      [[(''B'', ''2''), (''C'', ''z'')], [(''B'', ''2''), (''C'', ''z'')]]"
  by (simp add: plainData_def dependentDecoded_def codecDependent_def binderDependent_def binderC_def
        bothPresent_def decode_eval)

lemma dependentEncoded_eq:
  "dependentEncoded = storeOf [Map.empty(''B'' \<mapsto> ''2'', ''C'' \<mapsto> ''z'')]
      [[(''B'', ''2''), (''C'', ''z'')], [(''B'', ''2''), (''C'', ''z'')],
                                        [(''C'', ''z'')]]"
  unfolding dependentEncoded_def dependentDecoded_eq
  by (simp add: storeOf_def plainData_def codecDependent_def binderDependent_def binderC_def encode_eval)

lemma dependentAgain_eq:
  "dependentAgain = storeOf [Map.empty(''B'' \<mapsto> ''2'', ''C'' \<mapsto> ''z''),
                                 Map.empty(''B'' \<mapsto> ''1'', ''C'' \<mapsto> ''z'')]
      [[(''B'', ''2''), (''C'', ''z'')], [(''B'', ''2''), (''C'', ''z'')],
                                      [(''C'', ''z'')], [(''C'', ''z'')]]"
  unfolding dependentAgain_def dependentEncoded_eq
  by (simp add: plainData_def codecDependent_def binderDependent_def binderC_def oneEach_def decode_eval)

lemma round_trip_needs_fixed_defaults:
  "fst (getModelFromUrlParams codecDependent bothPresent (PInstance 0) MUndefined
          (storeWith [(''B'', ''2''), (''C'', ''z'')])) = Inr \<lparr>model = Some 0, newParams = None\<rparr> \<and>
   fst (getUrlParamsFromModel codecDependent [0, 1, 0, 1] (MObject 0) PUndefined dependentDecoded) = Inr 2 \<and>
   fst (getModelFromUrlParams codecDependent oneEach (PInstance 2) MUndefined dependentEncoded) =
     Inr \<lparr>model = Some 1, newParams = None\<rparr> \<and>
   getUrlParamValue binderDependent (objects dependentDecoded ! 0) = ''2'' \<and>
   getUrlParamValue binderDependent (objects dependentAgain ! 1) = ''1''"
proof -
  have d1: "fst (getModelFromUrlParams codecDependent bothPresent (PInstance 0) MUndefined
          (storeWith [(''B'', ''2''), (''C'', ''z'')])) = Inr \<lparr>model = Some 0, newParams = None\<rparr>"
    by (simp add: plainData_def codecDependent_def binderDependent_def binderC_def bothPresent_def decode_eval)
  have e: "fst (getUrlParamsFromModel codecDependent [0, 1, 0, 1] (MObject 0) PUndefined dependentDecoded) = Inr 2"
    unfolding dependentDecoded_eq
    by (simp add: storeOf_def plainData_def codecDependent_def binderDependent_def binderC_def encode_eval)
  have d2: "fst (getModelFromUrlParams codecDependent oneEach (PInstance 2) MUndefined dependentEncoded) =
     Inr \<lparr>model = Some 1, newParams = None\<rparr>"
    unfolding dependentEncoded_eq
    by (simp add: plainData_def codecDependent_def binderDependent_def binderC_def oneEach_def decode_eval)
  have r1: "getUrlParamValue binderDependent (objects dependentDecoded ! 0) = ''2''"
    by (simp add: storeOf_def plainData_def dependentDecoded_eq binderDependent_def propertyBinder_def getUrlParamValue_def)
  have r2: "getUrlParamValue binderDependent (objects dependentAgain ! 1) = ''1''"
    by (simp add: storeOf_def plainData_def dependentAgain_eq binderDependent_def propertyBinder_def getUrlParamValue_def)
  show ?thesis using d1 e d2 r1 r2 by blast
qed

lemma checkedDecoded_eq:
  "checkedDecoded = storeOf [Map.empty(''ok'' \<mapsto> ''yes''), Map.empty(''ok'' \<mapsto> ''yes'', ''A'' \<mapsto> ''x'')]
      [[(''A'', ''x'')], [(''A'', ''x'')]]"
  by (simp add: plainData_def checkedDecoded_def codecChecked_def binderChecked_def onePresent_def decode_eval)

lemma checkedEncoded_eq:
  "checkedEncoded = storeOf [Map.empty(''ok'' \<mapsto> ''yes''), Map.empty(''ok'' \<mapsto> ''yes'', ''A'' \<mapsto> ''x'')]
      [[(''A'', ''x'')], [(''A'', ''x'')], [(''A'', ''x'')]]"
  unfolding checkedEncoded_def checkedDecoded_eq
  by (simp add: storeOf_def plainData_def codecChecked_def binderChecked_def encode_eval)

lemma round_trip_needs_checks_on_fields:
  "fst (getModelFromUrlParams codecChecked onePresent (PInstance 0) (MObject 0)
          (storeOf [Map.empty(''ok'' \<mapsto> ''yes'')] [[(''A'', ''x'')]])) =
     Inr \<lparr>model = Some 1, newParams = None\<rparr> \<and>
   fst (getUrlParamsFromModel codecChecked [0, 0] (MObject 1) PUndefined checkedDecoded) = Inr 2 \<and>
   fst (getModelFromUrlParams codecChecked onePresent (PInstance 2) MUndefined checkedEncoded) =
     Inr \<lparr>model = None, newParams = Some 3\<rparr>"
proof -
  have d1: "fst (getModelFromUrlParams codecChecked onePresent (PInstance 0) (MObject 0)
          (storeOf [Map.empty(''ok'' \<mapsto> ''yes'')] [[(''A'', ''x'')]])) =
     Inr \<lparr>model = Some 1, newParams = None\<rparr>"
    by (simp add: plainData_def codecChecked_def binderChecked_def onePresent_def decode_eval)
  have e: "fst (getUrlParamsFromModel codecChecked [0, 0] (MObject 1) PUndefined checkedDecoded) = Inr 2"
    unfolding checkedDecoded_eq by (simp add: storeOf_def plainData_def codecChecked_def binderChecked_def encode_eval)
  have d2: "fst (getModelFromUrlParams codecChecked onePresent (PInstance 2) MUndefined checkedEncoded) =
     Inr \<lparr>model = None, newParams = Some 3\<rparr>"
    unfolding checkedEncoded_eq
    by (simp add: plainData_def codecChecked_def binderChecked_def onePresent_def decode_eval)
  show ?thesis using d1 e d2 by blast
qed

end
